theory Spec2Isabelle
  imports Complex_Main "HOL-Library.Word" "HOL-Library.Monad_Syntax"
begin

section \<open>The liquid-metal height-field simulator (src/main.cpp)\<close>

text \<open>
  Modelling conventions.
  \<^item> A C++ \<^verbatim>\<open>float\<close> is modelled by the real number it denotes: \<open>+\<close>, \<open>-\<close>, \<open>*\<close>, \<open>/\<close>,
    \<^verbatim>\<open>std::exp\<close>, \<^verbatim>\<open>std::sqrt\<close>, \<^verbatim>\<open>powf\<close> and \<^verbatim>\<open>fabs\<close> are the exact operations on
    \<open>real\<close>. Rounding to single precision, infinities and NaN are not part of this model.
  \<^item> A C++ \<^verbatim>\<open>int\<close> is modelled by \<open>int\<close>, without overflow.
  \<^item> An \<^verbatim>\<open>unsigned char\<close> is an \<open>8 word\<close>.
  \<^item> A \<^verbatim>\<open>std::vector\<close> (and the pixel buffer of an image) is a list. An access outside
    the vector is undefined behaviour in C++; the model makes it the result \<open>None\<close>, and
    so is a float-to-\<^verbatim>\<open>unsigned char\<close> conversion whose truncated value does not fit.
  \<^item> Member functions take the object and return the updated object (state passing).

  Where a property turns on what these conventions leave out, the code concerned is
  modelled a second time with the machine behaviour written out:
  \<^item> \<open>AddImpulse_int32\<close> is \<^verbatim>\<open>AddImpulse\<close> with 32-bit \<^verbatim>\<open>int\<close> arithmetic, where an
    overflow (undefined behaviour in C++) is the result \<open>None\<close>; it agrees with
    \<open>AddImpulse\<close> whenever no operation overflows (\<open>AddImpulse_int32_agrees\<close>).
  \<^item> \<open>float32\<close> is a binary32 value with its infinities and NaN, and the normal
    reconstruction of \<^verbatim>\<open>RenderToImage\<close> and the cell arithmetic of \<^verbatim>\<open>Step\<close> are
    modelled over it; they agree with the real-valued model away from overflow and
    underflow (\<open>normal_len_float32_real\<close>, \<open>neighbour_velocity_float32\<close>).
\<close>

subsection \<open>Vectors with checked access\<close>

definition vec_get :: "'a list \<Rightarrow> int \<Rightarrow> 'a option" where
  "vec_get v k = (if 0 \<le> k \<and> k < int (length v) then Some (v ! nat k) else None)"

text \<open>\<^verbatim>\<open>v[k] = f(v[k])\<close>, the shape of \<^verbatim>\<open>v[k] += e\<close> and \<^verbatim>\<open>v[k] *= e\<close>.\<close>

definition vec_modify :: "'a list \<Rightarrow> int \<Rightarrow> ('a \<Rightarrow> 'a) \<Rightarrow> 'a list option" where
  "vec_modify v k f =
     (if 0 \<le> k \<and> k < int (length v) then Some (v[nat k := f (v ! nat k)]) else None)"

definition vec_set :: "'a list \<Rightarrow> int \<Rightarrow> 'a \<Rightarrow> 'a list option" where
  "vec_set v k a = (if 0 \<le> k \<and> k < int (length v) then Some (v[nat k := a]) else None)"

subsection \<open>Loops\<close>

text \<open>
  \<^verbatim>\<open>for (int i = lo; i <= hi; ++i) body\<close> runs the body on \<open>[lo..hi]\<close> in order, threading
  the state; a fault in the body ends the run.
\<close>

fun for_each :: "int list \<Rightarrow> (int \<Rightarrow> 's \<Rightarrow> 's option) \<Rightarrow> 's \<Rightarrow> 's option" where
  "for_each [] body s = Some s"
| "for_each (i # is) body s =
     do { s' \<leftarrow> body i s; for_each is body s' }"

subsection \<open>The simulation state\<close>

record LiquidSim =
  width :: int
  height :: int
  stiffness :: real
  damping :: real
  heightField :: "real list"
  velocityField :: "real list"

text \<open>
  The constructor. \<^verbatim>\<open>std::vector<float>(w * h, 0.0f)\<close> converts \<open>w * h\<close> to an unsigned
  size; a negative product asks for more elements than a vector can hold and the
  constructor throws.
\<close>

definition LiquidSim_init :: "int \<Rightarrow> int \<Rightarrow> LiquidSim option" where
  "LiquidSim_init w h =
     (if w * h < 0 then None
      else Some \<lparr>width = w, height = h, stiffness = 0.2, damping = 0.985,
                 heightField = replicate (nat (w * h)) 0,
                 velocityField = replicate (nat (w * h)) 0\<rparr>)"

definition idx :: "LiquidSim \<Rightarrow> int \<Rightarrow> int \<Rightarrow> int" where
  "idx s x y = y * width s + x"

subsection \<open>AddImpulse\<close>

text \<open>The body of the inner loop of \<^verbatim>\<open>AddImpulse\<close>, for one pair \<open>(j, i)\<close>.\<close>

definition AddImpulse_body :: "int \<Rightarrow> int \<Rightarrow> real \<Rightarrow> int \<Rightarrow> int \<Rightarrow> LiquidSim \<Rightarrow> LiquidSim option" where
  "AddImpulse_body x y amount j i s =
     (let nx = x + i; ny = y + j in
      if nx > 0 \<and> nx < width s - 1 \<and> ny > 0 \<and> ny < height s - 1 then
        (let dist2 = real_of_int (i * i + j * j);
             falloff = exp (- dist2 * 0.5)
         in do {
              hf \<leftarrow> vec_modify (heightField s) (idx s nx ny) (\<lambda>c. c + amount * falloff);
              Some (s\<lparr>heightField := hf\<rparr>)
            })
      else Some s)"

definition AddImpulse :: "LiquidSim \<Rightarrow> int \<Rightarrow> int \<Rightarrow> real \<Rightarrow> int \<Rightarrow> LiquidSim option" where
  "AddImpulse s x y amount radius =
     for_each [- radius .. radius]
       (\<lambda>j. for_each [- radius .. radius] (\<lambda>i. AddImpulse_body x y amount j i)) s"

subsection \<open>Step\<close>

text \<open>
  All three grid traversals of the program have the same header:
  \<^verbatim>\<open>for (int y = 1; y < height - 1; ++y) for (int x = 1; x < width - 1; ++x)\<close>.
\<close>

definition for_interior :: "LiquidSim \<Rightarrow> (int \<Rightarrow> int \<Rightarrow> 's \<Rightarrow> 's option) \<Rightarrow> 's \<Rightarrow> 's option" where
  "for_interior g body t =
     for_each [1 .. height g - 2] (\<lambda>y. for_each [1 .. width g - 2] (\<lambda>x. body x y)) t"

text \<open>The force computed for the cell \<open>(x, y)\<close> in the first pass.\<close>

definition cell_force :: "LiquidSim \<Rightarrow> int \<Rightarrow> int \<Rightarrow> real option" where
  "cell_force s x y =
     do {
       center \<leftarrow> vec_get (heightField s) (idx s x y);
       h1 \<leftarrow> vec_get (heightField s) (idx s (x - 1) y);
       h2 \<leftarrow> vec_get (heightField s) (idx s (x + 1) y);
       h3 \<leftarrow> vec_get (heightField s) (idx s x (y - 1));
       h4 \<leftarrow> vec_get (heightField s) (idx s x (y + 1));
       let sumNeighbors = h1 + h2 + h3 + h4;
       Some ((sumNeighbors - 4 * center) * stiffness s)
     }"

definition Step_force_body :: "int \<Rightarrow> int \<Rightarrow> LiquidSim \<Rightarrow> LiquidSim option" where
  "Step_force_body x y s =
     do {
       force \<leftarrow> cell_force s x y;
       vf \<leftarrow> vec_modify (velocityField s) (idx s x y) (\<lambda>v. v + force);
       Some (s\<lparr>velocityField := vf\<rparr>)
     }"

text \<open>
  The body of the second pass. The source reads
  \<^verbatim>\<open>//velocityField[idx(x, y)] *= damping;\<close> (commented out) and then
  \<^verbatim>\<open>velocityField[idx(x, y)] *= 0.94f;\<close>.
\<close>

definition Step_integrate_body :: "int \<Rightarrow> int \<Rightarrow> LiquidSim \<Rightarrow> LiquidSim option" where
  "Step_integrate_body x y s =
     do {
       vf \<leftarrow> vec_modify (velocityField s) (idx s x y) (\<lambda>v. v * 0.94);
       let s1 = s\<lparr>velocityField := vf\<rparr>;
       v \<leftarrow> vec_get (velocityField s1) (idx s1 x y);
       hf \<leftarrow> vec_modify (heightField s1) (idx s1 x y) (\<lambda>c. c + v);
       Some (s1\<lparr>heightField := hf\<rparr>)
     }"

definition Step_force_pass :: "LiquidSim \<Rightarrow> LiquidSim option" where
  "Step_force_pass s = for_interior s Step_force_body s"

definition Step_integrate_pass :: "LiquidSim \<Rightarrow> LiquidSim option" where
  "Step_integrate_pass s = for_interior s Step_integrate_body s"

definition Step :: "LiquidSim \<Rightarrow> LiquidSim option" where
  "Step s = do { s1 \<leftarrow> Step_force_pass s; Step_integrate_pass s1 }"

subsection \<open>Shading\<close>

record Color =
  c_r :: "8 word"
  c_g :: "8 word"
  c_b :: "8 word"
  c_a :: "8 word"

record Vector2 =
  v2_x :: real
  v2_y :: real

record Vector3 =
  v3_x :: real
  v3_y :: real
  v3_z :: real

definition envRight :: Color where "envRight = \<lparr>c_r = 200, c_g = 180, c_b = 160, c_a = 255\<rparr>"
definition envLeft :: Color where "envLeft = \<lparr>c_r = 160, c_g = 180, c_b = 200, c_a = 255\<rparr>"
definition envUp :: Color where "envUp = \<lparr>c_r = 180, c_g = 200, c_b = 255, c_a = 255\<rparr>"
definition envDown :: Color where "envDown = \<lparr>c_r = 40, c_g = 40, c_b = 50, c_a = 255\<rparr>"
definition envFront :: Color where "envFront = \<lparr>c_r = 120, c_g = 130, c_b = 150, c_a = 255\<rparr>"
definition envBack :: Color where "envBack = \<lparr>c_r = 80, c_g = 70, c_b = 60, c_a = 255\<rparr>"

definition SampleCubemap :: "Vector3 \<Rightarrow> Color" where
  "SampleCubemap n =
     (let ax = \<bar>v3_x n\<bar>; ay = \<bar>v3_y n\<bar>; az = \<bar>v3_z n\<bar> in
      if ax > ay \<and> ax > az then (if v3_x n > 0 then envRight else envLeft)
      else if ay > az then (if v3_y n > 0 then envUp else envDown)
      else (if v3_z n > 0 then envFront else envBack))"

text \<open>
  Modelled from the spec: \<^verbatim>\<open>Clamp\<close> comes from raylib's raymath.h, which is not part of
  the sources; the spec uses it as \<open>clamp(v, 0, 1)\<close>. raymath computes
  \<^verbatim>\<open>result = (value < min) ? min : value; if (result > max) result = max;\<close>.
\<close>

definition Clamp :: "real \<Rightarrow> real \<Rightarrow> real \<Rightarrow> real" where
  "Clamp v lo hi = (let result = (if v < lo then lo else v) in if result > hi then hi else result)"

text \<open>
  \<^verbatim>\<open>(unsigned char)f\<close>: the value is truncated towards zero; the conversion is undefined
  unless the truncated value is one of \<open>0 .. 255\<close>.
\<close>

definition to_uchar :: "real \<Rightarrow> 8 word option" where
  "to_uchar f =
     (if - 1 < f \<and> f < 256 then Some (word_of_int (if 0 \<le> f then \<lfloor>f\<rfloor> else \<lceil>f\<rceil>)) else None)"

text \<open>An \<^verbatim>\<open>unsigned char\<close> operand of a float multiplication is converted to float.\<close>

definition of_uchar :: "8 word \<Rightarrow> real" where
  "of_uchar c = real (unat c)"

text \<open>Lines 103 to 109: the candidate normal and its normalisation.\<close>

definition candidate_normal :: "real \<Rightarrow> real \<Rightarrow> Vector3" where
  "candidate_normal dx dy = \<lparr>v3_x = - dx, v3_y = - dy, v3_z = 1\<rparr>"

definition normal_len :: "Vector3 \<Rightarrow> real" where
  "normal_len n = sqrt (v3_x n * v3_x n + v3_y n * v3_y n + v3_z n * v3_z n)"

definition normalize :: "Vector3 \<Rightarrow> Vector3" where
  "normalize n =
     (let len = normal_len n in
      if len > 0 then \<lparr>v3_x = v3_x n / len, v3_y = v3_y n / len, v3_z = v3_z n / len\<rparr>
      else n)"

text \<open>Lines 111 to 118: the chrome value before its conversion to \<^verbatim>\<open>unsigned char\<close>.\<close>

definition chrome_value :: "Vector3 \<Rightarrow> Vector2 \<Rightarrow> real" where
  "chrome_value n lightDir =
     (let ndotl = v3_x n * v2_x lightDir + v3_y n * v2_y lightDir + v3_z n * 1;
          base = 0.4;
          intensity = Clamp (base + ndotl * 0.6) 0 1;
          boosted = intensity powr 0.6
      in boosted * 255)"

text \<open>Lines 124 to 126: one blended channel before its conversion to \<^verbatim>\<open>unsigned char\<close>.\<close>

definition blend :: "8 word \<Rightarrow> 8 word \<Rightarrow> real" where
  "blend chrome e = of_uchar chrome * 0.4 + of_uchar e * 0.6"

text \<open>The colour of one pixel from the four neighbouring heights (lines 100 to 129).\<close>

definition shade :: "real \<Rightarrow> real \<Rightarrow> real \<Rightarrow> real \<Rightarrow> Vector2 \<Rightarrow> Color option" where
  "shade hL hR hU hD lightDir =
     (let dx = hR - hL; dy = hD - hU;
          n = normalize (candidate_normal dx dy)
      in do {
           chrome \<leftarrow> to_uchar (chrome_value n lightDir);
           let env = SampleCubemap n;
           finalR \<leftarrow> to_uchar (blend chrome (c_r env));
           finalG \<leftarrow> to_uchar (blend chrome (c_g env));
           finalB \<leftarrow> to_uchar (blend chrome (c_b env));
           Some \<lparr>c_r = finalR, c_g = finalG, c_b = finalB, c_a = 180\<rparr>
         })"

text \<open>
  The body of the loop of \<^verbatim>\<open>RenderToImage\<close>. The method is not \<^verbatim>\<open>const\<close>, so the state
  it threads is the object together with the pixel buffer \<^verbatim>\<open>img.data\<close>.
\<close>

type_synonym Image = "Color list"

definition RenderToImage_body :: "Vector2 \<Rightarrow> int \<Rightarrow> int \<Rightarrow> LiquidSim \<times> Image \<Rightarrow> (LiquidSim \<times> Image) option" where
  "RenderToImage_body lightDir x y st =
     (case st of (s, pixels) \<Rightarrow>
      do {
        hL \<leftarrow> vec_get (heightField s) (idx s (x - 1) y);
        hR \<leftarrow> vec_get (heightField s) (idx s (x + 1) y);
        hU \<leftarrow> vec_get (heightField s) (idx s x (y - 1));
        hD \<leftarrow> vec_get (heightField s) (idx s x (y + 1));
        c \<leftarrow> shade hL hR hU hD lightDir;
        pixels' \<leftarrow> vec_set pixels (idx s x y) c;
        Some (s, pixels')
      })"

definition RenderToImage :: "LiquidSim \<Rightarrow> Image \<Rightarrow> Vector2 \<Rightarrow> (LiquidSim \<times> Image) option" where
  "RenderToImage s img lightDir = for_interior s (RenderToImage_body lightDir) (s, img)"

subsection \<open>Well-formed states, cells and runs\<close>

text \<open>
  The constructor makes both vectors of size \<open>width * height\<close>, and no member function
  resizes them or assigns \<open>width\<close> or \<open>height\<close>.
\<close>

definition wf_sim :: "LiquidSim \<Rightarrow> bool" where
  "wf_sim s \<longleftrightarrow>
     0 \<le> width s * height s \<and>
     int (length (heightField s)) = width s * height s \<and>
     int (length (velocityField s)) = width s * height s"

definition in_grid :: "LiquidSim \<Rightarrow> int \<Rightarrow> int \<Rightarrow> bool" where
  "in_grid s x y \<longleftrightarrow> 0 \<le> x \<and> x < width s \<and> 0 \<le> y \<and> y < height s"

definition interior :: "LiquidSim \<Rightarrow> int \<Rightarrow> int \<Rightarrow> bool" where
  "interior s x y \<longleftrightarrow> 0 < x \<and> x < width s - 1 \<and> 0 < y \<and> y < height s - 1"

definition on_boundary :: "LiquidSim \<Rightarrow> int \<Rightarrow> int \<Rightarrow> bool" where
  "on_boundary s x y \<longleftrightarrow>
     in_grid s x y \<and> (x = 0 \<or> x = width s - 1 \<or> y = 0 \<or> y = height s - 1)"

definition height_at :: "LiquidSim \<Rightarrow> int \<Rightarrow> int \<Rightarrow> real option" where
  "height_at s x y = vec_get (heightField s) (idx s x y)"

definition velocity_at :: "LiquidSim \<Rightarrow> int \<Rightarrow> int \<Rightarrow> real option" where
  "velocity_at s x y = vec_get (velocityField s) (idx s x y)"

text \<open>The calls a host makes on the simulation, and a sequence of them run in order.\<close>

datatype call = CallAddImpulse int int real int | CallStep

fun do_call :: "call \<Rightarrow> LiquidSim \<Rightarrow> LiquidSim option" where
  "do_call (CallAddImpulse x y amount radius) s = AddImpulse s x y amount radius"
| "do_call CallStep s = Step s"

fun run :: "call list \<Rightarrow> LiquidSim \<Rightarrow> LiquidSim option" where
  "run [] s = Some s"
| "run (c # cs) s = do { s' \<leftarrow> do_call c s; run cs s' }"

text \<open>The fields that no member function assigns.\<close>

definition same_config :: "LiquidSim \<Rightarrow> LiquidSim \<Rightarrow> bool" where
  "same_config s t \<longleftrightarrow>
     width t = width s \<and> height t = height s \<and> stiffness t = stiffness s \<and> damping t = damping s"

text \<open>Constructing a simulation and running calls on it, as \<^verbatim>\<open>main\<close> does.\<close>

definition sim_run :: "int \<Rightarrow> int \<Rightarrow> call list \<Rightarrow> LiquidSim option" where
  "sim_run w h cs = do { s \<leftarrow> LiquidSim_init w h; run cs s }"

text \<open>Reading a cell of the result of a run that may have faulted.\<close>

definition height_of :: "LiquidSim option \<Rightarrow> int \<Rightarrow> int \<Rightarrow> real option" where
  "height_of r x y = do { s \<leftarrow> r; height_at s x y }"

definition velocity_of :: "LiquidSim option \<Rightarrow> int \<Rightarrow> int \<Rightarrow> real option" where
  "velocity_of r x y = do { s \<leftarrow> r; velocity_at s x y }"

text \<open>\<open>n\<close> calls of \<^verbatim>\<open>RenderToImage\<close> in a row, each on the object and image the last one left.\<close>

fun RenderToImage_times :: "nat \<Rightarrow> LiquidSim \<Rightarrow> Image \<Rightarrow> Vector2 \<Rightarrow> (LiquidSim \<times> Image) option" where
  "RenderToImage_times 0 s img lightDir = Some (s, img)"
| "RenderToImage_times (Suc n) s img lightDir =
     do { (s', img') \<leftarrow> RenderToImage s img lightDir; RenderToImage_times n s' img' lightDir }"

subsection \<open>AddImpulse with 32-bit int arithmetic\<close>

text \<open>
  The result of an \<^verbatim>\<open>int\<close> operation whose mathematical value is \<open>k\<close>: signed overflow
  is undefined behaviour, modelled as the fault \<open>None\<close>. The arguments, the loop
  counters and the fields \<open>width\<close> and \<open>height\<close> are values of type \<^verbatim>\<open>int\<close>.
\<close>

definition int32_ok :: "int \<Rightarrow> bool" where
  "int32_ok k \<longleftrightarrow> - (2 ^ 31) \<le> k \<and> k < 2 ^ 31"

definition int32 :: "int \<Rightarrow> int option" where
  "int32 k = (if int32_ok k then Some k else None)"

text \<open>
  \<^verbatim>\<open>for (int i = lo; i <= hi; ++i) body\<close>: the test, the body, then the increment, which
  overflows when \<open>i\<close> is the largest \<^verbatim>\<open>int\<close>.
\<close>

function for_int32 :: "int \<Rightarrow> int \<Rightarrow> (int \<Rightarrow> 's \<Rightarrow> 's option) \<Rightarrow> 's \<Rightarrow> 's option" where
  "for_int32 i hi body s =
     (if i \<le> hi then
        (case body i s of None \<Rightarrow> None
         | Some s' \<Rightarrow> (case int32 (i + 1) of None \<Rightarrow> None
                       | Some i' \<Rightarrow> for_int32 i' hi body s'))
      else Some s)"
  by pat_completeness auto
termination
  by (relation "measure (\<lambda>(i, hi, body, s). nat (hi + 1 - i))")
    (auto simp: int32_def split: if_splits)

declare for_int32.simps [simp del]

text \<open>
  The test \<^verbatim>\<open>nx > 0 && nx < width - 1 && ny > 0 && ny < height - 1\<close>, evaluated from left
  to right; \<^verbatim>\<open>width - 1\<close> and \<^verbatim>\<open>height - 1\<close> are computed only when the tests before
  them hold.
\<close>

definition AddImpulse_guard_int32 :: "LiquidSim \<Rightarrow> int \<Rightarrow> int \<Rightarrow> bool option" where
  "AddImpulse_guard_int32 s nx ny =
     (if nx > 0 then
        do {
          w1 \<leftarrow> int32 (width s - 1);
          if nx < w1 then
            (if ny > 0 then do { h1 \<leftarrow> int32 (height s - 1); Some (ny < h1) } else Some False)
          else Some False
        }
      else Some False)"

definition AddImpulse_int32_body :: "int \<Rightarrow> int \<Rightarrow> real \<Rightarrow> int \<Rightarrow> int \<Rightarrow> LiquidSim \<Rightarrow> LiquidSim option" where
  "AddImpulse_int32_body x y amount j i s =
     do {
       nx \<leftarrow> int32 (x + i);
       ny \<leftarrow> int32 (y + j);
       inside \<leftarrow> AddImpulse_guard_int32 s nx ny;
       if inside then
         do {
           ii \<leftarrow> int32 (i * i);
           jj \<leftarrow> int32 (j * j);
           d \<leftarrow> int32 (ii + jj);
           let dist2 = real_of_int d;
           let falloff = exp (- dist2 * 0.5);
           k0 \<leftarrow> int32 (ny * width s);
           k \<leftarrow> int32 (k0 + nx);
           hf \<leftarrow> vec_modify (heightField s) k (\<lambda>c. c + amount * falloff);
           Some (s\<lparr>heightField := hf\<rparr>)
         }
       else Some s
     }"

definition AddImpulse_int32 :: "LiquidSim \<Rightarrow> int \<Rightarrow> int \<Rightarrow> real \<Rightarrow> int \<Rightarrow> LiquidSim option" where
  "AddImpulse_int32 s x y amount radius =
     do {
       j0 \<leftarrow> int32 (- radius);
       for_int32 j0 radius
         (\<lambda>j t. do {
            i0 \<leftarrow> int32 (- radius);
            for_int32 i0 radius (\<lambda>i. AddImpulse_int32_body x y amount j i) t
          }) s
     }"

subsection \<open>Binary32 values with infinities and NaN\<close>

text \<open>
  A binary32 value is a finite number, an infinity or NaN. The result of an operation
  whose exact value is \<open>r\<close> rounds to zero when \<open>\<bar>r\<bar> \<le> 2\<^sup>-\<^sup>1\<^sup>5\<^sup>0\<close> (half of the
  smallest subnormal number), overflows to an infinity when
  \<open>\<bar>r\<bar> \<ge> 2\<^sup>1\<^sup>2\<^sup>8 - 2\<^sup>1\<^sup>0\<^sup>3\<close> (halfway above the largest finite number), and is
  otherwise taken as \<open>r\<close> itself: the rounding of the other results to 24 significant
  bits is not modelled, and neither is the sign of zero (a zero divisor counts as
  \<open>+0\<close>). The operations on infinities and NaN follow IEEE 754: NaN propagates,
  \<open>inf - inf\<close>, \<open>0 * inf\<close>, \<open>inf / inf\<close> and \<open>0 / 0\<close> are NaN, and every comparison with
  NaN is false.
\<close>

datatype float32 = Finite real | PInf | NInf | NaN

definition float32_result :: "real \<Rightarrow> float32" where
  "float32_result r =
     (if \<bar>r\<bar> \<le> 1 / 2 ^ 150 then Finite 0
      else if \<bar>r\<bar> < 2 ^ 128 - 2 ^ 103 then Finite r
      else if 0 < r then PInf else NInf)"

fun fneg :: "float32 \<Rightarrow> float32" where
  "fneg (Finite a) = Finite (- a)"
| "fneg PInf = NInf"
| "fneg NInf = PInf"
| "fneg NaN = NaN"

fun fadd :: "float32 \<Rightarrow> float32 \<Rightarrow> float32" where
  "fadd NaN b = NaN"
| "fadd a NaN = NaN"
| "fadd PInf NInf = NaN"
| "fadd NInf PInf = NaN"
| "fadd PInf b = PInf"
| "fadd a PInf = PInf"
| "fadd NInf b = NInf"
| "fadd a NInf = NInf"
| "fadd (Finite a) (Finite b) = float32_result (a + b)"

definition fsub :: "float32 \<Rightarrow> float32 \<Rightarrow> float32" where
  "fsub a b = fadd a (fneg b)"

fun fmul :: "float32 \<Rightarrow> float32 \<Rightarrow> float32" where
  "fmul NaN b = NaN"
| "fmul a NaN = NaN"
| "fmul (Finite a) (Finite b) = float32_result (a * b)"
| "fmul (Finite a) PInf = (if a = 0 then NaN else if 0 < a then PInf else NInf)"
| "fmul (Finite a) NInf = (if a = 0 then NaN else if 0 < a then NInf else PInf)"
| "fmul PInf (Finite b) = (if b = 0 then NaN else if 0 < b then PInf else NInf)"
| "fmul NInf (Finite b) = (if b = 0 then NaN else if 0 < b then NInf else PInf)"
| "fmul PInf PInf = PInf"
| "fmul PInf NInf = NInf"
| "fmul NInf PInf = NInf"
| "fmul NInf NInf = PInf"

fun fdiv :: "float32 \<Rightarrow> float32 \<Rightarrow> float32" where
  "fdiv NaN b = NaN"
| "fdiv a NaN = NaN"
| "fdiv (Finite a) (Finite b) =
     (if b = 0 then (if a = 0 then NaN else if 0 < a then PInf else NInf)
      else float32_result (a / b))"
| "fdiv (Finite a) PInf = Finite 0"
| "fdiv (Finite a) NInf = Finite 0"
| "fdiv PInf (Finite b) = (if 0 \<le> b then PInf else NInf)"
| "fdiv NInf (Finite b) = (if 0 \<le> b then NInf else PInf)"
| "fdiv PInf b = NaN"
| "fdiv NInf b = NaN"

fun fsqrt :: "float32 \<Rightarrow> float32" where
  "fsqrt (Finite a) = (if a < 0 then NaN else Finite (sqrt a))"
| "fsqrt PInf = PInf"
| "fsqrt NInf = NaN"
| "fsqrt NaN = NaN"

fun fgreater :: "float32 \<Rightarrow> float32 \<Rightarrow> bool" where
  "fgreater NaN b = False"
| "fgreater a NaN = False"
| "fgreater (Finite a) (Finite b) = (a > b)"
| "fgreater PInf PInf = False"
| "fgreater PInf b = True"
| "fgreater a PInf = False"
| "fgreater NInf b = False"
| "fgreater a NInf = True"

text \<open>Lines 103 to 109 over binary32 values.\<close>

record Vector3_float32 =
  f3_x :: float32
  f3_y :: float32
  f3_z :: float32

definition candidate_normal_float32 :: "float32 \<Rightarrow> float32 \<Rightarrow> Vector3_float32" where
  "candidate_normal_float32 dx dy = \<lparr>f3_x = fneg dx, f3_y = fneg dy, f3_z = Finite 1\<rparr>"

definition normal_len_float32 :: "Vector3_float32 \<Rightarrow> float32" where
  "normal_len_float32 n =
     fsqrt (fadd (fadd (fmul (f3_x n) (f3_x n)) (fmul (f3_y n) (f3_y n))) (fmul (f3_z n) (f3_z n)))"

definition normalize_float32 :: "Vector3_float32 \<Rightarrow> Vector3_float32" where
  "normalize_float32 n =
     (let len = normal_len_float32 n in
      if fgreater len (Finite 0)
      then \<lparr>f3_x = fdiv (f3_x n) len, f3_y = fdiv (f3_y n) len, f3_z = fdiv (f3_z n) len\<rparr>
      else n)"

text \<open>
  Lines 40 to 46 and 57 over binary32 values: the force of a cell from its own height
  and the four neighbouring heights, and the velocity after the force is added and the
  decay applied.
\<close>

definition cell_force_float32 ::
  "float32 \<Rightarrow> float32 \<Rightarrow> float32 \<Rightarrow> float32 \<Rightarrow> float32 \<Rightarrow> float32 \<Rightarrow> float32" where
  "cell_force_float32 center h1 h2 h3 h4 k =
     (let sumNeighbors = fadd (fadd (fadd h1 h2) h3) h4
      in fmul (fsub sumNeighbors (fmul (Finite 4) center)) k)"

definition damped_velocity_float32 :: "float32 \<Rightarrow> float32 \<Rightarrow> float32" where
  "damped_velocity_float32 v force = fmul (fadd v force) (Finite 0.94)"

section \<open>Loops: invariants and pointwise effects\<close>

lemma for_each_inv:
  assumes "P s" and "\<And>i t. i \<in> set js \<Longrightarrow> P t \<Longrightarrow> \<exists>t'. body i t = Some t' \<and> P t'"
  shows "\<exists>s'. for_each js body s = Some s' \<and> P s'"
  using assms
proof (induction js arbitrary: s)
  case Nil
  then show ?case by simp
next
  case (Cons j js)
  from Cons.prems obtain t where t: "body j s = Some t" "P t" by (meson list.set_intros(1))
  from Cons.IH [OF t(2)] Cons.prems(2) obtain s' where "for_each js body t = Some s'" "P s'"
    by (meson list.set_intros(2))
  with t show ?case by simp
qed

lemma for_each_pointwise:
  assumes inv: "I s"
    and step: "\<And>i t. i \<in> set js \<Longrightarrow> I t \<Longrightarrow>
        \<exists>t'. body i t = Some t' \<and> I t' \<and>
             (\<forall>k\<in>D. obs t' k = (if k \<in> K i then u k (obs t k) else obs t k))"
    and dist: "distinct js"
    and disj: "\<And>i i'. i \<in> set js \<Longrightarrow> i' \<in> set js \<Longrightarrow> i \<noteq> i' \<Longrightarrow> K i \<inter> K i' = {}"
  shows "\<exists>s'. for_each js body s = Some s' \<and> I s' \<and>
           (\<forall>k\<in>D. obs s' k = (if k \<in> (\<Union>i\<in>set js. K i) then u k (obs s k) else obs s k))"
  using assms
proof (induction js arbitrary: s)
  case Nil
  then show ?case by simp
next
  case (Cons j js)
  from Cons.prems(2) [of j s] Cons.prems(1)
  obtain t where t: "body j s = Some t" "I t"
    and tobs: "\<forall>k\<in>D. obs t k = (if k \<in> K j then u k (obs s k) else obs s k)"
    by auto
  have step': "\<And>i t. i \<in> set js \<Longrightarrow> I t \<Longrightarrow>
        \<exists>t'. body i t = Some t' \<and> I t' \<and>
             (\<forall>k\<in>D. obs t' k = (if k \<in> K i then u k (obs t k) else obs t k))"
    using Cons.prems(2) by simp
  have disj': "\<And>i i'. i \<in> set js \<Longrightarrow> i' \<in> set js \<Longrightarrow> i \<noteq> i' \<Longrightarrow> K i \<inter> K i' = {}"
    using Cons.prems(4) by simp
  from Cons.IH [OF t(2) step' _ disj'] Cons.prems(3)
  obtain s' where s': "for_each js body t = Some s'" "I s'"
    and sobs: "\<forall>k\<in>D. obs s' k = (if k \<in> (\<Union>i\<in>set js. K i) then u k (obs t k) else obs t k)"
    by auto
  have jdisj: "\<And>i. i \<in> set js \<Longrightarrow> K j \<inter> K i = {}"
    using Cons.prems(3,4) by auto
  have "\<forall>k\<in>D. obs s' k = (if k \<in> (\<Union>i\<in>set (j # js). K i) then u k (obs s k) else obs s k)"
  proof
    fix k assume k: "k \<in> D"
    show "obs s' k = (if k \<in> (\<Union>i\<in>set (j # js). K i) then u k (obs s k) else obs s k)"
    proof (cases "k \<in> K j")
      case True
      then have "k \<notin> (\<Union>i\<in>set js. K i)" using jdisj by blast
      with True k sobs tobs show ?thesis by simp
    next
      case False
      with k sobs tobs show ?thesis by simp
    qed
  qed
  with t s' show ?case by simp
qed

text \<open>Nested loops: the outer loop over \<open>ys\<close>, the inner over \<open>xs\<close>.\<close>

lemma nested_pointwise:
  assumes inv: "I s"
    and step: "\<And>x y t. x \<in> set xs \<Longrightarrow> y \<in> set ys \<Longrightarrow> I t \<Longrightarrow>
        \<exists>t'. body x y t = Some t' \<and> I t' \<and>
             (\<forall>k\<in>D. obs t' k = (if k \<in> K x y then u k (obs t k) else obs t k))"
    and dist: "distinct xs" "distinct ys"
    and disj: "\<And>x y x' y'. (x, y) \<noteq> (x', y') \<Longrightarrow> K x y \<inter> K x' y' = {}"
  shows "\<exists>s'. for_each ys (\<lambda>y. for_each xs (\<lambda>x. body x y)) s = Some s' \<and> I s' \<and>
           (\<forall>k\<in>D. obs s' k =
              (if k \<in> (\<Union>y\<in>set ys. \<Union>x\<in>set xs. K x y) then u k (obs s k) else obs s k))"
proof (rule for_each_pointwise [where I = I and K = "\<lambda>y. \<Union>x\<in>set xs. K x y"])
  show "I s" by (rule inv)
  show "distinct ys" by (rule dist)
next
  fix y t assume y: "y \<in> set ys" and t: "I t"
  show "\<exists>t'. for_each xs (\<lambda>x. body x y) t = Some t' \<and> I t' \<and>
          (\<forall>k\<in>D. obs t' k = (if k \<in> (\<Union>x\<in>set xs. K x y) then u k (obs t k) else obs t k))"
  proof (rule for_each_pointwise [where I = I and K = "\<lambda>x. K x y"])
    show "I t" by (rule t)
    show "distinct xs" by (rule dist)
  next
    fix x t' assume "x \<in> set xs" "I t'"
    then show "\<exists>t''. body x y t' = Some t'' \<and> I t'' \<and>
            (\<forall>k\<in>D. obs t'' k = (if k \<in> K x y then u k (obs t' k) else obs t' k))"
      using step y by blast
  next
    fix x x' assume "x \<in> set xs" "x' \<in> set xs" "x \<noteq> x'"
    then show "K x y \<inter> K x' y = {}" using disj by simp
  qed
next
  fix y y' assume "y \<in> set ys" "y' \<in> set ys" "y \<noteq> y'"
  then have "\<And>x x'. K x y \<inter> K x' y' = {}" using disj by simp
  then show "(\<Union>x\<in>set xs. K x y) \<inter> (\<Union>x\<in>set xs. K x y') = {}" by blast
qed

subsection \<open>Row-major indexing\<close>

lemma idx_range:
  assumes "0 \<le> x" "x < w" "0 \<le> y" "y < h"
  shows "0 \<le> y * w + x \<and> y * w + x < w * (h::int)"
proof -
  have "y * w + x < (y + 1) * w" using assms by (simp add: algebra_simps)
  also have "\<dots> \<le> h * w" using assms by (intro mult_right_mono) auto
  finally show ?thesis using assms by (simp add: mult.commute)
qed

lemma idx_inj:
  assumes "0 \<le> x" "x < w" "0 \<le> x'" "x' < (w::int)" "y * w + x = y' * w + x'"
  shows "x = x' \<and> y = y'"
proof -
  have "(y * w + x) mod w = x" "(y' * w + x') mod w = x'" using assms(1-4) by simp_all
  then have xx: "x = x'" using assms(5) by simp
  have "(y * w + x) div w = y" "(y' * w + x') div w = y'" using assms(1-4) by simp_all
  then have "y = y'" using assms(5) by simp
  with xx show ?thesis by simp
qed

lemma cell_index:
  assumes "wf_sim s" "in_grid s x y"
  shows "0 \<le> idx s x y" "idx s x y < int (length (heightField s))"
    "idx s x y < int (length (velocityField s))" "idx s x y < width s * height s"
  using assms idx_range [of x "width s" y "height s"]
  by (simp_all add: wf_sim_def in_grid_def idx_def)

lemma idx_eq_iff:
  assumes "in_grid s x y" "in_grid s x' y'"
  shows "idx s x y = idx s x' y' \<longleftrightarrow> x = x' \<and> y = y'"
  using assms idx_inj [of x "width s" x' y y']
  by (auto simp: in_grid_def idx_def)

lemma nat_idx_eq_iff:
  assumes "wf_sim s" "in_grid s x y" "in_grid s x' y'"
  shows "nat (idx s x y) = nat (idx s x' y') \<longleftrightarrow> x = x' \<and> y = y'"
  using assms cell_index(1) [of s x y] cell_index(1) [of s x' y'] idx_eq_iff [of s x y x' y']
  by (simp add: nat_eq_iff)

lemma interior_in_grid: "interior s x y \<Longrightarrow> in_grid s x y"
  by (simp add: interior_def in_grid_def)

lemma interior_neighbours:
  assumes "interior s x y"
  shows "in_grid s (x - 1) y" "in_grid s (x + 1) y" "in_grid s x (y - 1)" "in_grid s x (y + 1)"
  using assms by (simp_all add: interior_def in_grid_def)

section \<open>The effect of AddImpulse\<close>


lemma same_config_refl: "same_config s s"
  by (simp add: same_config_def)

lemma same_config_trans: "same_config s t \<Longrightarrow> same_config t u \<Longrightarrow> same_config s u"
  by (simp add: same_config_def)

lemma same_config_idx: "same_config s t \<Longrightarrow> idx t x y = idx s x y"
  by (simp add: same_config_def idx_def)

lemma same_config_interior: "same_config s t \<Longrightarrow> interior t x y = interior s x y"
  by (simp add: same_config_def interior_def)

lemma same_config_in_grid: "same_config s t \<Longrightarrow> in_grid t x y = in_grid s x y"
  by (simp add: same_config_def in_grid_def)


lemma AddImpulse_body_outside:
  assumes "\<not> interior s (x + i) (y + j)"
  shows "AddImpulse_body x y amount j i s = Some s"
  using assms by (auto simp: AddImpulse_body_def Let_def interior_def)

text \<open>
  With mathematical integers the call is a no-op whenever every cell of the square is
  outside the strict interior.
\<close>

lemma AddImpulse_all_outside_noop:
  assumes "\<forall>i\<in>{- radius .. radius}. \<forall>j\<in>{- radius .. radius}. \<not> interior s (x + i) (y + j)"
  shows "AddImpulse s x y amount radius = Some s"
proof -
  have inner: "\<exists>t'. for_each [- radius .. radius] (\<lambda>i. AddImpulse_body x y amount j i) t = Some t' \<and> t' = s"
    if j: "j \<in> set [- radius .. radius]" and t: "t = s" for j t
  proof (rule for_each_inv [where P = "\<lambda>t. t = s"])
    show "t = s" by (rule t)
  next
    fix i u assume "i \<in> set [- radius .. radius]" "u = s"
    then show "\<exists>t'. AddImpulse_body x y amount j i u = Some t' \<and> t' = s"
      using assms j AddImpulse_body_outside [of s x i y j amount] by simp
  qed
  have "\<exists>s'. for_each [- radius .. radius]
       (\<lambda>j. for_each [- radius .. radius] (\<lambda>i. AddImpulse_body x y amount j i)) s = Some s' \<and> s' = s"
    by (rule for_each_inv [where P = "\<lambda>t. t = s"]) (simp_all add: inner)
  then show ?thesis by (simp add: AddImpulse_def)
qed

section \<open>AddImpulse with 32-bit int arithmetic\<close>

lemma for_int32_overflows:
  assumes "i \<le> hi" and "hi = 2 ^ 31 - 1"
  shows "for_int32 i hi body s = None"
  using assms
proof (induction i hi body s rule: for_int32.induct)
  case (1 i hi body s)
  show ?case
  proof (cases "body i s")
    case None
    with "1.prems" show ?thesis by (subst for_int32.simps) simp
  next
    case (Some s')
    show ?thesis
    proof (cases "int32 (i + 1)")
      case None
      with Some "1.prems" show ?thesis by (subst for_int32.simps) simp
    next
      case (Some i')
      then have i': "i' = i + 1" "i + 1 < 2 ^ 31"
        by (auto simp: int32_def int32_ok_def split: if_splits)
      then have "i' \<le> hi" using "1.prems" by simp
      from "1.IH" [OF "1.prems"(1) \<open>body i s = Some s'\<close> Some this "1.prems"(2)]
      show ?thesis using \<open>body i s = Some s'\<close> Some "1.prems" by (subst for_int32.simps) simp
    qed
  qed
qed

lemma for_int32_eq_for_each:
  assumes "hi < 2 ^ 31 - 1" and "- (2 ^ 31) \<le> i"
  shows "for_int32 i hi body s = for_each [i .. hi] body s"
  using assms
proof (induction i hi body s rule: for_int32.induct)
  case (1 i hi body s)
  show ?case
  proof (cases "i \<le> hi")
    case False
    then show ?thesis by (subst for_int32.simps) simp
  next
    case True
    then have ok: "int32 (i + 1) = Some (i + 1)"
      using "1.prems" by (simp add: int32_def int32_ok_def)
    have u: "[i .. hi] = i # [i + 1 .. hi]" using True by (simp add: upto_rec1)
    show ?thesis
    proof (cases "body i s")
      case None
      with True u show ?thesis by (subst for_int32.simps) simp
    next
      case (Some s')
      from "1.IH" [OF True Some ok "1.prems"(1)] "1.prems"(2)
      have "for_int32 (i + 1) hi body s' = for_each [i + 1 .. hi] body s'" by simp
      with True u Some ok show ?thesis by (subst for_int32.simps) simp
    qed
  qed
qed

lemma for_each_cong_inv:
  assumes "I s"
    and eq: "\<And>i t. i \<in> set js \<Longrightarrow> I t \<Longrightarrow> f i t = g i t"
    and pres: "\<And>i t t'. i \<in> set js \<Longrightarrow> I t \<Longrightarrow> g i t = Some t' \<Longrightarrow> I t'"
  shows "for_each js f s = for_each js g s"
  using assms
proof (induction js arbitrary: s)
  case Nil
  then show ?case by simp
next
  case (Cons j js)
  have e: "f j s = g j s" using Cons.prems(1,2) by simp
  show ?case
  proof (cases "g j s")
    case None
    with e show ?thesis by simp
  next
    case (Some t)
    have "I t" using Cons.prems(1,3) Some by (meson list.set_intros(1))
    then have "for_each js f t = for_each js g t"
    proof (rule Cons.IH)
      show "\<And>i t. i \<in> set js \<Longrightarrow> I t \<Longrightarrow> f i t = g i t" using Cons.prems(2) by simp
      show "\<And>i t t'. i \<in> set js \<Longrightarrow> I t \<Longrightarrow> g i t = Some t' \<Longrightarrow> I t'"
        using Cons.prems(3) by (meson list.set_intros(2))
    qed
    with e Some show ?thesis by simp
  qed
qed

lemma AddImpulse_guard_int32_interior:
  assumes "int32_ok (width s - 1)" "int32_ok (height s - 1)"
  shows "AddImpulse_guard_int32 s nx ny = Some (interior s nx ny)"
  using assms by (auto simp: AddImpulse_guard_int32_def int32_def interior_def)

lemma AddImpulse_int32_body_outside:
  assumes "int32_ok (width s - 1)" "int32_ok (height s - 1)"
    and "int32_ok (x + i)" "int32_ok (y + j)" and "\<not> interior s (x + i) (y + j)"
  shows "AddImpulse_int32_body x y amount j i s = Some s"
  using assms
  by (simp add: AddImpulse_int32_body_def int32_def AddImpulse_guard_int32_interior)

lemma no_interior_2x2:
  "\<not> interior \<lparr>width = 2, height = 2, stiffness = 0.2, damping = 0.985,
                heightField = [0, 0, 0, 0], velocityField = [0, 0, 0, 0]\<rparr> x y"
  by (simp add: interior_def)

text \<open>
  Claim C6, as stated: every call \<^verbatim>\<open>AddImpulse(x, y, amount, radius)\<close> whose cells
  \<open>(x + i, y + j)\<close> all lie outside the strict interior leaves both grids unchanged and
  signals no fault. A 2 by 2 grid has no interior cell (\<open>no_interior_2x2\<close>), yet with
  \<open>radius = 2147483647\<close>, the largest \<^verbatim>\<open>int\<close>, the test \<^verbatim>\<open>j <= radius\<close> never fails
  and \<^verbatim>\<open>++j\<close> overflows: the call does not return normally.
\<close>

theorem AddImpulse_int32_counter_overflow:
  "AddImpulse_int32
     \<lparr>width = 2, height = 2, stiffness = 0.2, damping = 0.985,
      heightField = [0, 0, 0, 0], velocityField = [0, 0, 0, 0]\<rparr> 0 0 1 2147483647 = None"
proof -
  have "int32 (- 2147483647) = Some (- 2147483647)" by (simp add: int32_def int32_ok_def)
  moreover have "for_int32 (- 2147483647) 2147483647 body s = None" for body and s :: LiquidSim
    by (rule for_int32_overflows) simp_all
  ultimately show ?thesis by (simp add: AddImpulse_int32_def)
qed

text \<open>
  Claim C6, amended: for every call \<^verbatim>\<open>AddImpulse(x, y, amount, radius)\<close> in which no
  \<^verbatim>\<open>int\<close> operation overflows (\<open>radius\<close> strictly between the smallest and the largest
  \<^verbatim>\<open>int\<close>, \<open>x - radius\<close>, \<open>x + radius\<close>, \<open>y - radius\<close> and \<open>y + radius\<close> in the range
  of \<^verbatim>\<open>int\<close>, \<open>width\<close> and \<open>height\<close> above the smallest \<^verbatim>\<open>int\<close>) and in which every
  cell \<open>(x + i, y + j)\<close> with \<open>i, j\<close> in \<open>[-radius, radius]\<close> lies outside the strict
  interior, the call returns normally and leaves the whole object, both grids included,
  as it was. An empty range of a negative radius is included.
\<close>

theorem AddImpulse_int32_all_outside_noop:
  assumes r: "- (2 ^ 31) < radius" "radius < 2 ^ 31 - 1"
    and xr: "- (2 ^ 31) \<le> x - radius" "x + radius < 2 ^ 31"
    and yr: "- (2 ^ 31) \<le> y - radius" "y + radius < 2 ^ 31"
    and w: "- (2 ^ 31) < width s" "width s < 2 ^ 31"
    and h: "- (2 ^ 31) < height s" "height s < 2 ^ 31"
    and out: "\<forall>i\<in>{- radius .. radius}. \<forall>j\<in>{- radius .. radius}. \<not> interior s (x + i) (y + j)"
  shows "AddImpulse_int32 s x y amount radius = Some s"
proof -
  have neg: "int32 (- radius) = Some (- radius)" using r by (simp add: int32_def int32_ok_def)
  have wh: "int32_ok (width s - 1)" "int32_ok (height s - 1)"
    using w h by (simp_all add: int32_ok_def)
  have lo: "- (2 ^ 31) \<le> - radius" using r by simp
  have body: "AddImpulse_int32_body x y amount j i s = Some s"
    if "i \<in> set [- radius .. radius]" "j \<in> set [- radius .. radius]" for i j
  proof -
    have "int32_ok (x + i)" "int32_ok (y + j)" using that xr yr by (simp_all add: int32_ok_def)
    moreover have "\<not> interior s (x + i) (y + j)" using that out by simp
    ultimately show ?thesis by (rule AddImpulse_int32_body_outside [OF wh])
  qed
  have inner: "for_int32 (- radius) radius (\<lambda>i. AddImpulse_int32_body x y amount j i) s = Some s"
    if j: "j \<in> set [- radius .. radius]" for j
  proof -
    have "\<exists>t'. for_each [- radius .. radius] (\<lambda>i. AddImpulse_int32_body x y amount j i) s = Some t' \<and> t' = s"
      by (rule for_each_inv [where P = "\<lambda>t. t = s"]) (simp_all add: body j del: set_upto)
    then show ?thesis by (simp add: for_int32_eq_for_each [OF r(2) lo])
  qed
  have "\<exists>t'. for_each [- radius .. radius]
      (\<lambda>j t. do {
            i0 \<leftarrow> int32 (- radius);
            for_int32 i0 radius (\<lambda>i. AddImpulse_int32_body x y amount j i) t
          }) s = Some t' \<and> t' = s"
    by (rule for_each_inv [where P = "\<lambda>t. t = s"]) (simp_all add: neg inner del: set_upto)
  then show ?thesis by (simp add: AddImpulse_int32_def neg for_int32_eq_for_each [OF r(2) lo])
qed

text \<open>
  An instance: the default radius 3 around the out-of-range coordinate \<open>(-10, 2)\<close> of a
  5 by 5 grid.
\<close>

theorem AddImpulse_int32_all_outside_noop_witness:
  "AddImpulse_int32 \<lparr>width = 5, height = 5, stiffness = 0.2, damping = 0.985,
               heightField = replicate 25 0, velocityField = replicate 25 0\<rparr> (- 10) 2 (- 1.5) 3
     = Some \<lparr>width = 5, height = 5, stiffness = 0.2, damping = 0.985,
              heightField = replicate 25 0, velocityField = replicate 25 0\<rparr>"
proof -
  let ?s = "\<lparr>width = 5, height = 5, stiffness = 0.2, damping = 0.985,
               heightField = replicate 25 (0::real), velocityField = replicate 25 (0::real)\<rparr>"
  have out: "\<forall>i\<in>{- 3 .. 3}. \<forall>j\<in>{- 3 .. 3}. \<not> interior ?s (- 10 + i) (2 + j)"
    by (simp add: interior_def)
  show ?thesis
    by (rule AddImpulse_int32_all_outside_noop [OF _ _ _ _ _ _ _ _ _ _ out]) simp_all
qed

text \<open>
  On a grid of fewer than \<open>2\<^sup>3\<^sup>1\<close> cells, with a radius of at most 32767 (so that
  \<open>i * i + j * j\<close> fits) and coordinates for which \<open>x + i\<close> and \<open>y + j\<close> fit, no operation
  overflows and the two models of \<^verbatim>\<open>AddImpulse\<close> agree.
\<close>

lemma AddImpulse_body_same_config:
  assumes "AddImpulse_body x y amount j i t = Some t'"
  shows "same_config t t'"
  using assms
  by (auto simp: AddImpulse_body_def Let_def same_config_def vec_modify_def
      split: if_splits Option.bind_splits)

lemma square_bound:
  assumes "\<bar>i\<bar> \<le> (32767::int)"
  shows "0 \<le> i * i \<and> i * i \<le> 1073676289"
proof -
  have "\<bar>i\<bar> * \<bar>i\<bar> \<le> 32767 * 32767" using assms by (intro mult_mono) simp_all
  then show ?thesis by (simp add: abs_mult_self_eq)
qed

lemma squares_int32:
  assumes "\<bar>i\<bar> \<le> (32767::int)" "\<bar>j\<bar> \<le> (32767::int)"
  shows "int32_ok (i * i)" "int32_ok (j * j)" "int32_ok (i * i + j * j)"
proof -
  have p: "(2::int) ^ 31 = 2147483648" by simp
  have a: "0 \<le> i * i" "i * i \<le> 1073676289" "0 \<le> j * j" "j * j \<le> 1073676289"
    using square_bound [OF assms(1)] square_bound [OF assms(2)] by blast+
  show "int32_ok (i * i)" "int32_ok (j * j)" "int32_ok (i * i + j * j)"
    unfolding int32_ok_def p using a by linarith+
qed

lemma AddImpulse_int32_body_agrees:
  assumes wh: "int32_ok (width t - 1)" "int32_ok (height t - 1)"
    and area: "width t * height t < 2 ^ 31"
    and nx: "int32_ok (x + i)" and ny: "int32_ok (y + j)"
    and i: "\<bar>i\<bar> \<le> 32767" and j: "\<bar>j\<bar> \<le> 32767"
  shows "AddImpulse_int32_body x y amount j i t = AddImpulse_body x y amount j i t"
proof (cases "interior t (x + i) (y + j)")
  case False
  then have "AddImpulse_body x y amount j i t = Some t"
    by (auto simp: AddImpulse_body_def Let_def interior_def)
  with AddImpulse_int32_body_outside [OF wh nx ny False] show ?thesis by simp
next
  case True
  then have g: "0 < x + i" "x + i < width t - 1" "0 < y + j" "y + j < height t - 1"
    by (simp_all add: interior_def)
  have sq: "int32 (i * i) = Some (i * i)" "int32 (j * j) = Some (j * j)"
    "int32 (i * i + j * j) = Some (i * i + j * j)"
    using squares_int32 [OF i j] by (simp_all add: int32_def)
  have rng: "0 \<le> (y + j) * width t + (x + i)" "(y + j) * width t + (x + i) < width t * height t"
    using idx_range [of "x + i" "width t" "y + j" "height t"] g by simp_all
  have "0 \<le> (y + j) * width t" using g by simp
  moreover have "(y + j) * width t \<le> (y + j) * width t + (x + i)" using g by simp
  ultimately have k: "int32 ((y + j) * width t) = Some ((y + j) * width t)"
    "int32 ((y + j) * width t + (x + i)) = Some ((y + j) * width t + (x + i))"
    using rng area by (simp_all add: int32_def int32_ok_def)
  have guard: "AddImpulse_guard_int32 t (x + i) (y + j) = Some True"
    using AddImpulse_guard_int32_interior [OF wh] True by simp
  show ?thesis
    using g nx ny sq k guard
    by (simp add: AddImpulse_int32_body_def AddImpulse_body_def Let_def int32_def idx_def)
qed

lemma AddImpulse_int32_agrees:
  assumes r: "- (2 ^ 31) < radius" "radius \<le> 32767"
    and xr: "- (2 ^ 31) \<le> x - radius" "x + radius < 2 ^ 31"
    and yr: "- (2 ^ 31) \<le> y - radius" "y + radius < 2 ^ 31"
    and w: "- (2 ^ 31) < width s" "width s < 2 ^ 31"
    and h: "- (2 ^ 31) < height s" "height s < 2 ^ 31"
    and area: "width s * height s < 2 ^ 31"
  shows "AddImpulse_int32 s x y amount radius = AddImpulse s x y amount radius"
proof -
  have neg: "int32 (- radius) = Some (- radius)" using r by (simp add: int32_def int32_ok_def)
  have lo: "- (2 ^ 31) \<le> - radius" and hi: "radius < 2 ^ 31 - 1" using r by simp_all
  have body: "AddImpulse_int32_body x y amount j i t = AddImpulse_body x y amount j i t"
    if "i \<in> set [- radius .. radius]" "j \<in> set [- radius .. radius]" "same_config s t" for i j t
  proof (rule AddImpulse_int32_body_agrees)
    show "int32_ok (width t - 1)" "int32_ok (height t - 1)" "width t * height t < 2 ^ 31"
      using that(3) w h area by (simp_all add: same_config_def int32_ok_def)
    show "int32_ok (x + i)" "int32_ok (y + j)" using that xr yr by (simp_all add: int32_ok_def)
    show "\<bar>i\<bar> \<le> 32767" "\<bar>j\<bar> \<le> 32767" using that r by auto
  qed
  have inner: "for_each [- radius .. radius] (\<lambda>i. AddImpulse_int32_body x y amount j i) t =
      for_each [- radius .. radius] (\<lambda>i. AddImpulse_body x y amount j i) t"
    if j: "j \<in> set [- radius .. radius]" and t: "same_config s t" for j t
  proof (rule for_each_cong_inv [where I = "same_config s"])
    show "same_config s t" by (rule t)
  next
    fix i u assume "i \<in> set [- radius .. radius]" "same_config s u"
    then show "AddImpulse_int32_body x y amount j i u = AddImpulse_body x y amount j i u"
      using body j by blast
  next
    fix i u u' assume "i \<in> set [- radius .. radius]" "same_config s u"
      "AddImpulse_body x y amount j i u = Some u'"
    then show "same_config s u'"
      using AddImpulse_body_same_config same_config_trans by blast
  qed
  have inner_pres: "same_config s t'"
    if "same_config s t" "for_each js (\<lambda>i. AddImpulse_body x y amount j i) t = Some t'" for j js t t'
    using that
  proof (induction js arbitrary: t)
    case Nil
    then show ?case by simp
  next
    case (Cons i js)
    from Cons.prems(2) obtain u where u: "AddImpulse_body x y amount j i t = Some u"
      "for_each js (\<lambda>i. AddImpulse_body x y amount j i) u = Some t'"
      by (auto split: Option.bind_splits)
    have "same_config s u"
      using Cons.prems(1) AddImpulse_body_same_config [OF u(1)] by (rule same_config_trans)
    then show ?case using u(2) by (rule Cons.IH)
  qed
  have "for_each [- radius .. radius]
      (\<lambda>j t. do {
            i0 \<leftarrow> int32 (- radius);
            for_int32 i0 radius (\<lambda>i. AddImpulse_int32_body x y amount j i) t
          }) s =
    for_each [- radius .. radius]
      (\<lambda>j. for_each [- radius .. radius] (\<lambda>i. AddImpulse_body x y amount j i)) s"
  proof (rule for_each_cong_inv [where I = "same_config s"])
    show "same_config s s" by (rule same_config_refl)
  next
    fix j t assume "j \<in> set [- radius .. radius]" "same_config s t"
    then show "do {
            i0 \<leftarrow> int32 (- radius);
            for_int32 i0 radius (\<lambda>i. AddImpulse_int32_body x y amount j i) t
          } = for_each [- radius .. radius] (\<lambda>i. AddImpulse_body x y amount j i) t"
      using inner by (simp add: neg for_int32_eq_for_each [OF hi lo])
  next
    fix j t t' assume "j \<in> set [- radius .. radius]" "same_config s t"
      "for_each [- radius .. radius] (\<lambda>i. AddImpulse_body x y amount j i) t = Some t'"
    then show "same_config s t'" using inner_pres by blast
  qed
  then show ?thesis
    by (simp add: AddImpulse_int32_def AddImpulse_def neg for_int32_eq_for_each [OF hi lo])
qed

section \<open>The effect of the two passes of Step\<close>

lemma idx_update [simp]:
  "idx (s\<lparr>velocityField := vf\<rparr>) x y = idx s x y"
  "idx (s\<lparr>heightField := hf\<rparr>) x y = idx s x y"
  by (simp_all add: idx_def)

lemma vec_get_cell:
  assumes "wf_sim s" "in_grid s x y"
  shows "vec_get (heightField s) (idx s x y) = Some (heightField s ! nat (idx s x y))"
    and "vec_get (velocityField s) (idx s x y) = Some (velocityField s ! nat (idx s x y))"
  using cell_index [OF assms] by (simp_all add: vec_get_def)

lemma cell_force_val:
  assumes wf: "wf_sim s" and int: "interior s x y"
  shows "cell_force s x y =
     Some ((heightField s ! nat (idx s (x - 1) y) + heightField s ! nat (idx s (x + 1) y)
            + heightField s ! nat (idx s x (y - 1)) + heightField s ! nat (idx s x (y + 1))
            - 4 * heightField s ! nat (idx s x y)) * stiffness s)"
  using vec_get_cell(1) [OF wf interior_in_grid [OF int]]
    interior_neighbours [OF int, THEN vec_get_cell(1) [OF wf]]
  by (simp add: cell_force_def)

lemma cell_force_cong:
  assumes "same_config s t" "heightField t = heightField s"
  shows "cell_force t x y = cell_force s x y"
  using assms by (simp add: cell_force_def same_config_idx) (simp add: same_config_def)

lemma set_interior_ranges:
  "x \<in> set [1 .. width s - 2] \<and> y \<in> set [1 .. height s - 2] \<longleftrightarrow> interior s x y"
  by (auto simp: interior_def)

lemma Step_force_pass_effect:
  assumes wf: "wf_sim s"
  shows "\<exists>s'. Step_force_pass s = Some s' \<and> wf_sim s' \<and> same_config s s' \<and>
           heightField s' = heightField s \<and>
           (\<forall>x y. in_grid s x y \<longrightarrow>
              velocityField s' ! nat (idx s x y) =
                (if interior s x y
                 then velocityField s ! nat (idx s x y) + the (cell_force s x y)
                 else velocityField s ! nat (idx s x y)))"
proof -
  define I where "I = (\<lambda>t::LiquidSim. wf_sim t \<and> same_config s t \<and> heightField t = heightField s)"
  define D where "D = {k. in_grid s (fst k) (snd k)}"
  define obs where "obs = (\<lambda>(t::LiquidSim) k. velocityField t ! nat (idx s (fst k) (snd k)))"
  define K where "K = (\<lambda>(x::int) (y::int). {(x, y)})"
  define u where "u = (\<lambda>k v. v + the (cell_force s (fst k) (snd k)))"
  have step: "\<exists>t'. Step_force_body x y t = Some t' \<and> I t' \<and>
      (\<forall>k\<in>D. obs t' k = (if k \<in> K x y then u k (obs t k) else obs t k))"
    if x: "x \<in> set [1 .. width s - 2]" and y: "y \<in> set [1 .. height s - 2]" and t: "I t" for x y t
  proof -
    from x y have int: "interior s x y" using set_interior_ranges by blast
    from t have wt: "wf_sim t" and sc: "same_config s t" and hf: "heightField t = heightField s"
      by (simp_all add: I_def)
    have int': "interior t x y" using int sc by (simp add: same_config_interior)
    let ?n = "nat (idx s x y)"
    obtain f where f: "cell_force s x y = Some f" using cell_force_val [OF wf int] by blast
    have cf: "cell_force t x y = Some f" using cell_force_cong [OF sc hf] f by simp
    have n: "0 \<le> idx t x y" "idx t x y < int (length (velocityField t))"
      using cell_index(1,3) [OF wt interior_in_grid [OF int']] by simp_all
    let ?t' = "t\<lparr>velocityField := (velocityField t)[?n := velocityField t ! ?n + f]\<rparr>"
    have eff: "Step_force_body x y t = Some ?t'"
      using cf n same_config_idx [OF sc, of x y] by (simp add: Step_force_body_def vec_modify_def)
    have I': "I ?t'" using t by (auto simp: I_def wf_sim_def same_config_def)
    have "obs ?t' k = (if k \<in> K x y then u k (obs t k) else obs t k)" if k: "k \<in> D" for k
    proof (cases "k = (x, y)")
      case True
      then show ?thesis using n same_config_idx [OF sc, of x y] f
        by (simp add: obs_def K_def u_def)
    next
      case False
      then have "nat (idx s (fst k) (snd k)) \<noteq> ?n"
        using nat_idx_eq_iff [OF wf, of "fst k" "snd k" x y] k interior_in_grid [OF int]
        by (cases k) (auto simp: D_def)
      with False show ?thesis by (simp add: obs_def K_def)
    qed
    with eff I' show ?thesis by blast
  qed
  have disj: "K x y \<inter> K x' y' = {}" if "(x, y) \<noteq> (x', y')" for x y x' y'
    using that by (auto simp: K_def)
  have "I s" using wf by (simp add: I_def same_config_def)
  from nested_pointwise [where I = I and body = Step_force_body
      and K = K and D = D and obs = obs and u = u
      and xs = "[1 .. width s - 2]" and ys = "[1 .. height s - 2]",
      OF this step _ _ disj]
  obtain s' where s': "for_interior s Step_force_body s = Some s'" "I s'"
    and o: "\<forall>k\<in>D. obs s' k =
       (if k \<in> (\<Union>y\<in>set [1 .. height s - 2]. \<Union>x\<in>set [1 .. width s - 2]. K x y)
        then u k (obs s k) else obs s k)"
    by (auto simp: for_interior_def)
  have mem: "(x, y) \<in> (\<Union>y\<in>set [1 .. height s - 2]. \<Union>x\<in>set [1 .. width s - 2]. K x y) \<longleftrightarrow>
      interior s x y" for x y
    using set_interior_ranges [of x s y] by (auto simp: K_def)
  have "velocityField s' ! nat (idx s x y) =
                (if interior s x y
                 then velocityField s ! nat (idx s x y) + the (cell_force s x y)
                 else velocityField s ! nat (idx s x y))" if "in_grid s x y" for x y
    using o [rule_format, of "(x, y)"] that mem [of x y]
    by (simp add: D_def obs_def u_def)
  with s' show ?thesis by (simp add: Step_force_pass_def I_def)
qed

lemma Step_integrate_pass_effect:
  assumes wf: "wf_sim s"
  shows "\<exists>s'. Step_integrate_pass s = Some s' \<and> wf_sim s' \<and> same_config s s' \<and>
           (\<forall>x y. in_grid s x y \<longrightarrow>
              velocityField s' ! nat (idx s x y) =
                (if interior s x y then velocityField s ! nat (idx s x y) * 0.94
                 else velocityField s ! nat (idx s x y)) \<and>
              heightField s' ! nat (idx s x y) =
                (if interior s x y
                 then heightField s ! nat (idx s x y) + velocityField s ! nat (idx s x y) * 0.94
                 else heightField s ! nat (idx s x y)))"
proof -
  define I where "I = (\<lambda>t::LiquidSim. wf_sim t \<and> same_config s t)"
  define D where "D = {k. in_grid s (fst k) (snd k)}"
  define obs where "obs = (\<lambda>(t::LiquidSim) k.
     (heightField t ! nat (idx s (fst k) (snd k)), velocityField t ! nat (idx s (fst k) (snd k))))"
  define K where "K = (\<lambda>(x::int) (y::int). {(x, y)})"
  define u where "u = (\<lambda>(k::int \<times> int) (hv::real \<times> real). (fst hv + snd hv * 0.94, snd hv * 0.94))"
  have step: "\<exists>t'. Step_integrate_body x y t = Some t' \<and> I t' \<and>
      (\<forall>k\<in>D. obs t' k = (if k \<in> K x y then u k (obs t k) else obs t k))"
    if x: "x \<in> set [1 .. width s - 2]" and y: "y \<in> set [1 .. height s - 2]" and t: "I t" for x y t
  proof -
    from x y have int: "interior s x y" using set_interior_ranges by blast
    from t have wt: "wf_sim t" and sc: "same_config s t" by (simp_all add: I_def)
    have int': "interior t x y" using int sc by (simp add: same_config_interior)
    let ?n = "nat (idx s x y)"
    have n: "0 \<le> idx t x y" "idx t x y < int (length (velocityField t))"
      "idx t x y < int (length (heightField t))"
      using cell_index(1,2,3) [OF wt interior_in_grid [OF int']] by simp_all
    let ?v = "velocityField t ! ?n * 0.94"
    let ?t' = "t\<lparr>velocityField := (velocityField t)[?n := ?v],
                 heightField := (heightField t)[?n := heightField t ! ?n + ?v]\<rparr>"
    have eff: "Step_integrate_body x y t = Some ?t'"
      using n same_config_idx [OF sc, of x y]
      by (simp add: Step_integrate_body_def vec_modify_def vec_get_def Let_def)
    have I': "I ?t'" using t by (auto simp: I_def wf_sim_def same_config_def)
    have "obs ?t' k = (if k \<in> K x y then u k (obs t k) else obs t k)" if k: "k \<in> D" for k
    proof (cases "k = (x, y)")
      case True
      then show ?thesis using n same_config_idx [OF sc, of x y]
        by (simp add: obs_def K_def u_def)
    next
      case False
      then have "nat (idx s (fst k) (snd k)) \<noteq> ?n"
        using nat_idx_eq_iff [OF wf, of "fst k" "snd k" x y] k interior_in_grid [OF int]
        by (cases k) (auto simp: D_def)
      with False show ?thesis by (simp add: obs_def K_def)
    qed
    with eff I' show ?thesis by blast
  qed
  have disj: "K x y \<inter> K x' y' = {}" if "(x, y) \<noteq> (x', y')" for x y x' y'
    using that by (auto simp: K_def)
  have "I s" using wf by (simp add: I_def same_config_def)
  from nested_pointwise [where I = I and body = Step_integrate_body
      and K = K and D = D and obs = obs and u = u
      and xs = "[1 .. width s - 2]" and ys = "[1 .. height s - 2]",
      OF this step _ _ disj]
  obtain s' where s': "for_interior s Step_integrate_body s = Some s'" "I s'"
    and o: "\<forall>k\<in>D. obs s' k =
       (if k \<in> (\<Union>y\<in>set [1 .. height s - 2]. \<Union>x\<in>set [1 .. width s - 2]. K x y)
        then u k (obs s k) else obs s k)"
    by (auto simp: for_interior_def)
  have mem: "(x, y) \<in> (\<Union>y\<in>set [1 .. height s - 2]. \<Union>x\<in>set [1 .. width s - 2]. K x y) \<longleftrightarrow>
      interior s x y" for x y
    using set_interior_ranges [of x s y] by (auto simp: K_def)
  have "velocityField s' ! nat (idx s x y) =
                (if interior s x y then velocityField s ! nat (idx s x y) * 0.94
                 else velocityField s ! nat (idx s x y)) \<and>
              heightField s' ! nat (idx s x y) =
                (if interior s x y
                 then heightField s ! nat (idx s x y) + velocityField s ! nat (idx s x y) * 0.94
                 else heightField s ! nat (idx s x y))" if "in_grid s x y" for x y
    using o [rule_format, of "(x, y)"] that mem [of x y]
    by (cases "interior s x y") (simp_all add: D_def obs_def u_def)
  with s' show ?thesis by (simp add: Step_integrate_pass_def I_def)
qed

lemma Step_effect:
  assumes wf: "wf_sim s"
  shows "\<exists>s'. Step s = Some s' \<and> wf_sim s' \<and> same_config s s' \<and>
           (\<forall>x y. in_grid s x y \<longrightarrow>
              velocityField s' ! nat (idx s x y) =
                (if interior s x y
                 then (velocityField s ! nat (idx s x y) + the (cell_force s x y)) * 0.94
                 else velocityField s ! nat (idx s x y)) \<and>
              heightField s' ! nat (idx s x y) =
                (if interior s x y
                 then heightField s ! nat (idx s x y)
                        + (velocityField s ! nat (idx s x y) + the (cell_force s x y)) * 0.94
                 else heightField s ! nat (idx s x y)))"
proof -
  from Step_force_pass_effect [OF wf] obtain s1 where
    s1: "Step_force_pass s = Some s1" "wf_sim s1" "same_config s s1" "heightField s1 = heightField s"
    and v1: "\<And>x y. in_grid s x y \<Longrightarrow> velocityField s1 ! nat (idx s x y) =
                (if interior s x y
                 then velocityField s ! nat (idx s x y) + the (cell_force s x y)
                 else velocityField s ! nat (idx s x y))"
    by blast
  from Step_integrate_pass_effect [OF s1(2)] obtain s2 where
    s2: "Step_integrate_pass s1 = Some s2" "wf_sim s2" "same_config s1 s2"
    and v2: "\<And>x y. in_grid s1 x y \<Longrightarrow>
              velocityField s2 ! nat (idx s1 x y) =
                (if interior s1 x y then velocityField s1 ! nat (idx s1 x y) * 0.94
                 else velocityField s1 ! nat (idx s1 x y)) \<and>
              heightField s2 ! nat (idx s1 x y) =
                (if interior s1 x y
                 then heightField s1 ! nat (idx s1 x y) + velocityField s1 ! nat (idx s1 x y) * 0.94
                 else heightField s1 ! nat (idx s1 x y))"
    by blast
  have "velocityField s2 ! nat (idx s x y) =
                (if interior s x y
                 then (velocityField s ! nat (idx s x y) + the (cell_force s x y)) * 0.94
                 else velocityField s ! nat (idx s x y)) \<and>
              heightField s2 ! nat (idx s x y) =
                (if interior s x y
                 then heightField s ! nat (idx s x y)
                        + (velocityField s ! nat (idx s x y) + the (cell_force s x y)) * 0.94
                 else heightField s ! nat (idx s x y))" if g: "in_grid s x y" for x y
    using v2 [of x y] v1 [OF g] g s1(4)
    by (simp add: same_config_idx [OF s1(3)] same_config_interior [OF s1(3)]
        same_config_in_grid [OF s1(3)])
  with s1 s2 show ?thesis
    using same_config_trans [OF s1(3) s2(3)] by (simp add: Step_def)
qed

section \<open>Step: damping and pass ordering\<close>

text \<open>The definitions to unfold when a run is evaluated on a concrete grid.\<close>

lemmas eval_defs = sim_run_def LiquidSim_init_def AddImpulse_def AddImpulse_body_def
  Step_def Step_force_pass_def Step_integrate_pass_def for_interior_def
  Step_force_body_def Step_integrate_body_def cell_force_def
  vec_get_def vec_modify_def idx_def height_at_def velocity_at_def
  height_of_def velocity_of_def Let_def upto.simps

lemma cell_at:
  assumes "wf_sim s" "same_config s t" "wf_sim t" "in_grid s x y"
  shows "height_at t x y = Some (heightField t ! nat (idx s x y))"
    and "velocity_at t x y = Some (velocityField t ! nat (idx s x y))"
  using vec_get_cell [OF assms(3), of x y] assms(2,4)
  by (simp_all add: height_at_def velocity_at_def same_config_idx same_config_in_grid)

text \<open>
  Claim C1, as stated: the integration pass multiplies the velocity of an interior cell
  by the configured damping factor. On the 3 by 3 grid, after
  \<^verbatim>\<open>AddImpulse(1, 1, 1.0, 0)\<close> and the force pass, the centre cell has velocity
  \<open>-0.8\<close> and the damping field holds \<open>0.985\<close>; the integration pass leaves the velocity
  \<open>-0.752 = 0.94 * (-0.8)\<close>, not \<open>0.985 * (-0.8)\<close>.
\<close>

theorem damping_field_counterexample:
  "sim_run 3 3 [CallAddImpulse 1 1 1 0] \<bind> Step_force_pass =
     Some \<lparr>width = 3, height = 3, stiffness = 0.2, damping = 0.985,
           heightField = [0, 0, 0, 0, 1, 0, 0, 0, 0],
           velocityField = [0, 0, 0, 0, - 0.8, 0, 0, 0, 0]\<rparr> \<and>
   Step_integrate_pass
     \<lparr>width = 3, height = 3, stiffness = 0.2, damping = 0.985,
      heightField = [0, 0, 0, 0, 1, 0, 0, 0, 0],
      velocityField = [0, 0, 0, 0, - 0.8, 0, 0, 0, 0]\<rparr> =
     Some \<lparr>width = 3, height = 3, stiffness = 0.2, damping = 0.985,
           heightField = [0, 0, 0, 0, 0.248, 0, 0, 0, 0],
           velocityField = [0, 0, 0, 0, - 0.752, 0, 0, 0, 0]\<rparr> \<and>
   (- 0.752 :: real) \<noteq> 0.985 * (- 0.8)"
  by (simp add: eval_defs numeral_eq_Suc)

text \<open>
  Claim C1, amended: for every interior cell of a well-formed state, the integration
  pass multiplies the velocity of the cell by the literal constant \<open>0.94\<close>, whatever the
  damping field holds, and then adds the damped velocity to the height of the cell; the
  damping field is neither read nor changed.
\<close>

theorem integration_decay_is_literal:
  assumes "wf_sim s" and "interior s x y"
  shows "\<exists>v c s'. velocity_at s x y = Some v \<and> height_at s x y = Some c \<and>
           Step_integrate_pass s = Some s' \<and>
           velocity_at s' x y = Some (v * 0.94) \<and>
           height_at s' x y = Some (c + v * 0.94) \<and>
           damping s' = damping s"
proof -
  have g: "in_grid s x y" using assms(2) by (rule interior_in_grid)
  from Step_integrate_pass_effect [OF assms(1)] obtain s' where
    s': "Step_integrate_pass s = Some s'" "wf_sim s'" "same_config s s'"
    and e: "\<And>x y. in_grid s x y \<Longrightarrow>
              velocityField s' ! nat (idx s x y) =
                (if interior s x y then velocityField s ! nat (idx s x y) * 0.94
                 else velocityField s ! nat (idx s x y)) \<and>
              heightField s' ! nat (idx s x y) =
                (if interior s x y
                 then heightField s ! nat (idx s x y) + velocityField s ! nat (idx s x y) * 0.94
                 else heightField s ! nat (idx s x y))"
    by blast
  have "velocity_at s x y = Some (velocityField s ! nat (idx s x y))"
    "height_at s x y = Some (heightField s ! nat (idx s x y))"
    using cell_at [OF assms(1) same_config_refl assms(1) g] by simp_all
  moreover have "velocity_at s' x y = Some (velocityField s ! nat (idx s x y) * 0.94)"
    "height_at s' x y = Some (heightField s ! nat (idx s x y) + velocityField s ! nat (idx s x y) * 0.94)"
    using cell_at [OF assms(1) s'(3) s'(2) g] e [OF g] assms(2) by simp_all
  moreover have "damping s' = damping s" using s'(3) by (simp add: same_config_def)
  ultimately show ?thesis using s'(1) by blast
qed

text \<open>An instance: the centre cell of the 3 by 3 grid above.\<close>

theorem integration_decay_is_literal_witness:
  "wf_sim \<lparr>width = 3, height = 3, stiffness = 0.2, damping = 0.985,
           heightField = [0, 0, 0, 0, 1, 0, 0, 0, 0],
           velocityField = [0, 0, 0, 0, - 0.8, 0, 0, 0, 0]\<rparr> \<and>
   interior \<lparr>width = 3, height = 3, stiffness = 0.2, damping = 0.985,
           heightField = [0, 0, 0, 0, 1, 0, 0, 0, 0],
           velocityField = [0, 0, 0, 0, - 0.8, 0, 0, 0, 0]\<rparr> 1 1 \<and>
   (\<exists>s'. Step_integrate_pass \<lparr>width = 3, height = 3, stiffness = 0.2, damping = 0.985,
           heightField = [0, 0, 0, 0, 1, 0, 0, 0, 0],
           velocityField = [0, 0, 0, 0, - 0.8, 0, 0, 0, 0]\<rparr> = Some s' \<and>
         velocity_at s' 1 1 = Some (- 0.8 * 0.94) \<and>
         height_at s' 1 1 = Some (1 + - 0.8 * 0.94) \<and>
         damping s' = 0.985)"
proof -
  let ?s = "\<lparr>width = 3, height = 3, stiffness = 0.2, damping = 0.985,
           heightField = [0, 0, 0, 0, 1, 0, 0, 0, 0],
           velocityField = [0, 0, 0, 0, - 0.8 :: real, 0, 0, 0, 0]\<rparr>"
  have w: "wf_sim ?s" by (simp add: wf_sim_def)
  have i: "interior ?s 1 1" by (simp add: interior_def)
  have v: "velocity_at ?s 1 1 = Some (- 0.8)" "height_at ?s 1 1 = Some 1"
    by (simp_all add: velocity_at_def height_at_def vec_get_def idx_def)
  from integration_decay_is_literal [OF w i] v w i show ?thesis by auto
qed

text \<open>
  Claim C5, as stated: with exactly one nonzero interior cell, one \<^verbatim>\<open>Step\<close> gives
  nonzero velocity to the 4 axis-adjacent neighbours. On the 3 by 3 grid the only
  interior cell is \<open>(1, 1)\<close>; all its neighbours are boundary cells, which \<^verbatim>\<open>Step\<close>
  never writes, and the velocity of the neighbour \<open>(0, 1)\<close> is still zero after the call.
\<close>

theorem boundary_neighbour_counterexample:
  "interior \<lparr>width = 3, height = 3, stiffness = 0.2, damping = 0.985,
             heightField = [0, 0, 0, 0, 1, 0, 0, 0, 0],
             velocityField = [0, 0, 0, 0, 0, 0, 0, 0, 0]\<rparr> 1 1 \<and>
   Step \<lparr>width = 3, height = 3, stiffness = 0.2, damping = 0.985,
         heightField = [0, 0, 0, 0, 1, 0, 0, 0, 0],
         velocityField = [0, 0, 0, 0, 0, 0, 0, 0, 0]\<rparr> =
     Some \<lparr>width = 3, height = 3, stiffness = 0.2, damping = 0.985,
           heightField = [0, 0, 0, 0, 0.248, 0, 0, 0, 0],
           velocityField = [0, 0, 0, 0, - 0.752, 0, 0, 0, 0]\<rparr> \<and>
   velocity_at \<lparr>width = 3, height = 3, stiffness = 0.2, damping = 0.985,
           heightField = [0, 0, 0, 0, 0.248, 0, 0, 0, 0],
           velocityField = [0, 0, 0, 0, - 0.752, 0, 0, 0, 0]\<rparr> 0 1 = Some 0"
  by (simp add: eval_defs interior_def numeral_eq_Suc)

lemma single_cell_height:
  assumes wf: "wf_sim s" and c: "in_grid s cx cy" and g: "in_grid s x y"
    and hf: "heightField s = (replicate (nat (width s * height s)) 0)[nat (idx s cx cy) := c]"
  shows "heightField s ! nat (idx s x y) = (if x = cx \<and> y = cy then c else 0)"
proof -
  have n: "nat (idx s x y) < nat (width s * height s)" "nat (idx s cx cy) < nat (width s * height s)"
    using cell_index(1,4) [OF wf g] cell_index(1,4) [OF wf c] by simp_all
  show ?thesis
  proof (cases "x = cx \<and> y = cy")
    case True
    then show ?thesis using n by (subst hf) simp
  next
    case False
    then have "nat (idx s x y) \<noteq> nat (idx s cx cy)"
      using nat_idx_eq_iff [OF wf g c] by simp
    then show ?thesis using n False by (subst hf) auto
  qed
qed

lemma axis_neighbour_in_grid:
  assumes "interior s cx cy" "\<bar>x - cx\<bar> + \<bar>y - cy\<bar> = 1"
  shows "in_grid s x y"
  using assms unfolding interior_def in_grid_def by arith

text \<open>
  Claim C5, amended: on a well-formed field whose heights are zero except for the value
  \<open>c\<close> at one interior cell, with all velocities zero, and with magnitudes for which the
  float products neither underflow to zero nor overflow (\<open>2\<^sup>-\<^sup>1\<^sup>0\<^sup>0 \<le> \<bar>c\<bar> \<le> 2\<^sup>1\<^sup>0\<^sup>0\<close>
  and \<open>2\<^sup>-\<^sup>2\<^sup>0 \<le> \<bar>stiffness\<bar> \<le> 2\<^sup>2\<^sup>0\<close>), one call of \<^verbatim>\<open>Step\<close> returns and gives the
  nonzero velocity \<open>c * stiffness * 0.94\<close> to each axis-adjacent neighbour that is itself
  an interior cell, while an axis-adjacent neighbour on the boundary ring keeps velocity
  and height zero; the new height of the centre cell is computed from the neighbour sum
  \<open>0 + 0 + 0 + 0\<close> of before the call, although the interior neighbours' own heights
  have become \<open>c * stiffness * 0.94\<close>.
\<close>

theorem single_cell_step:
  assumes wf: "wf_sim s" and int: "interior s cx cy"
    and hf: "heightField s = (replicate (nat (width s * height s)) 0)[nat (idx s cx cy) := c]"
    and vf: "velocityField s = replicate (nat (width s * height s)) 0"
    and c: "1 / 2 ^ 100 \<le> \<bar>c\<bar>" "\<bar>c\<bar> \<le> 2 ^ 100"
    and k: "1 / 2 ^ 20 \<le> \<bar>stiffness s\<bar>" "\<bar>stiffness s\<bar> \<le> 2 ^ 20"
  shows "\<exists>s'. Step s = Some s' \<and>
           height_at s' cx cy = Some (c + (0 + (0 + 0 + 0 + 0 - 4 * c) * stiffness s) * 0.94) \<and>
           (\<forall>x y. interior s x y \<and> \<bar>x - cx\<bar> + \<bar>y - cy\<bar> = 1 \<longrightarrow>
              velocity_at s' x y = Some (c * stiffness s * 0.94) \<and>
              height_at s' x y = Some (c * stiffness s * 0.94) \<and>
              c * stiffness s * 0.94 \<noteq> 0) \<and>
           (\<forall>x y. \<not> interior s x y \<and> \<bar>x - cx\<bar> + \<bar>y - cy\<bar> = 1 \<longrightarrow>
              on_boundary s x y \<and> velocity_at s' x y = Some 0 \<and> height_at s' x y = Some 0)"
proof -
  have c0: "c \<noteq> 0"
  proof
    assume "c = 0"
    with c(1) have "(1::real) / 2 ^ 100 \<le> 0" by simp
    then show False by simp
  qed
  have k0: "stiffness s \<noteq> 0"
  proof
    assume "stiffness s = 0"
    with k(1) have "(1::real) / 2 ^ 20 \<le> 0" by simp
    then show False by simp
  qed
  have cg: "in_grid s cx cy" using int by (rule interior_in_grid)
  note H = single_cell_height [OF wf cg _ hf]
  have V: "velocityField s ! nat (idx s x y) = 0" if "in_grid s x y" for x y
    using cell_index(1,4) [OF wf that] by (subst vf) simp
  have F: "the (cell_force s x y) =
      ((if x - 1 = cx \<and> y = cy then c else 0) + (if x + 1 = cx \<and> y = cy then c else 0)
       + (if x = cx \<and> y - 1 = cy then c else 0) + (if x = cx \<and> y + 1 = cy then c else 0)
       - 4 * (if x = cx \<and> y = cy then c else 0)) * stiffness s" if i: "interior s x y" for x y
    using cell_force_val [OF wf i] H [OF interior_in_grid [OF i]]
      interior_neighbours [OF i, THEN H]
    by simp
  from Step_effect [OF wf] obtain s' where
    s': "Step s = Some s'" "wf_sim s'" "same_config s s'"
    and e: "\<And>x y. in_grid s x y \<Longrightarrow>
              velocityField s' ! nat (idx s x y) =
                (if interior s x y
                 then (velocityField s ! nat (idx s x y) + the (cell_force s x y)) * 0.94
                 else velocityField s ! nat (idx s x y)) \<and>
              heightField s' ! nat (idx s x y) =
                (if interior s x y
                 then heightField s ! nat (idx s x y)
                        + (velocityField s ! nat (idx s x y) + the (cell_force s x y)) * 0.94
                 else heightField s ! nat (idx s x y))"
    by blast
  have centre: "height_at s' cx cy = Some (c + (0 + (0 + 0 + 0 + 0 - 4 * c) * stiffness s) * 0.94)"
    using cell_at(1) [OF wf s'(3) s'(2) cg] e [OF cg] int H [OF cg] V [OF cg] F [OF int]
    by simp
  have nb: "velocity_at s' x y = Some (c * stiffness s * 0.94) \<and>
            height_at s' x y = Some (c * stiffness s * 0.94) \<and> c * stiffness s * 0.94 \<noteq> 0"
    if i: "interior s x y" and d: "\<bar>x - cx\<bar> + \<bar>y - cy\<bar> = 1" for x y
  proof -
    have g: "in_grid s x y" using i by (rule interior_in_grid)
    have ne: "\<not> (x = cx \<and> y = cy)" using d by auto
    have f: "the (cell_force s x y) = c * stiffness s"
    proof -
      consider "x - 1 = cx \<and> y = cy" | "x + 1 = cx \<and> y = cy" | "x = cx \<and> y - 1 = cy"
        | "x = cx \<and> y + 1 = cy"
        using d by arith
      then show ?thesis unfolding F [OF i] by cases auto
    qed
    show ?thesis
      using cell_at [OF wf s'(3) s'(2) g] e [OF g] i H [OF g] V [OF g] f ne c0 k0
      by simp
  qed
  have ring: "on_boundary s x y \<and> velocity_at s' x y = Some 0 \<and> height_at s' x y = Some 0"
    if i: "\<not> interior s x y" and d: "\<bar>x - cx\<bar> + \<bar>y - cy\<bar> = 1" for x y
  proof -
    have g: "in_grid s x y" using int d by (rule axis_neighbour_in_grid)
    have ne: "\<not> (x = cx \<and> y = cy)" using d by auto
    have b: "on_boundary s x y"
      using g i unfolding on_boundary_def in_grid_def interior_def by arith
    show ?thesis
      using cell_at [OF wf s'(3) s'(2) g] e [OF g] i H [OF g] V [OF g] ne b by simp
  qed
  from s'(1) centre nb ring show ?thesis by blast
qed

text \<open>
  An instance: the cell \<open>(1, 2)\<close> of a 5 by 5 grid, its interior neighbour \<open>(2, 2)\<close> and
  its neighbour \<open>(0, 2)\<close> on the ring.
\<close>

theorem single_cell_step_witness:
  "wf_sim \<lparr>width = 5, height = 5, stiffness = 0.2, damping = 0.985,
           heightField = (replicate 25 0)[11 := 1], velocityField = replicate 25 0\<rparr> \<and>
   interior \<lparr>width = 5, height = 5, stiffness = 0.2, damping = 0.985,
           heightField = (replicate 25 0)[11 := 1], velocityField = replicate 25 0\<rparr> 1 2 \<and>
   interior \<lparr>width = 5, height = 5, stiffness = 0.2, damping = 0.985,
           heightField = (replicate 25 0)[11 := 1], velocityField = replicate 25 0\<rparr> 2 2 \<and>
   on_boundary \<lparr>width = 5, height = 5, stiffness = 0.2, damping = 0.985,
           heightField = (replicate 25 0)[11 := 1], velocityField = replicate 25 0\<rparr> 0 2 \<and>
   (\<exists>s'. Step \<lparr>width = 5, height = 5, stiffness = 0.2, damping = 0.985,
           heightField = (replicate 25 0)[11 := 1], velocityField = replicate 25 0\<rparr> = Some s' \<and>
         height_at s' 1 2 = Some 0.248 \<and>
         velocity_at s' 2 2 = Some 0.188 \<and>
         height_at s' 2 2 = Some 0.188 \<and>
         velocity_at s' 0 2 = Some 0)"
proof -
  let ?s = "\<lparr>width = 5, height = 5, stiffness = 0.2, damping = 0.985,
           heightField = (replicate 25 (0::real))[11 := 1], velocityField = replicate 25 (0::real)\<rparr>"
  have w: "wf_sim ?s" by (simp add: wf_sim_def)
  have i: "interior ?s 1 2" "interior ?s 2 2" "\<not> interior ?s 0 2" by (simp_all add: interior_def)
  have b: "on_boundary ?s 0 2" by (simp add: on_boundary_def in_grid_def)
  have hf: "heightField ?s = (replicate (nat (width ?s * height ?s)) 0)[nat (idx ?s 1 2) := 1]"
    by (simp add: idx_def)
  have vf: "velocityField ?s = replicate (nat (width ?s * height ?s)) 0" by simp
  have c: "1 / 2 ^ 100 \<le> \<bar>1::real\<bar>" "\<bar>1::real\<bar> \<le> 2 ^ 100" by simp_all
  have k: "1 / 2 ^ 20 \<le> \<bar>stiffness ?s\<bar>" "\<bar>stiffness ?s\<bar> \<le> 2 ^ 20" by simp_all
  from single_cell_step [OF w i(1) hf vf c k] obtain s' where
    "Step ?s = Some s'"
    "height_at s' 1 2 = Some (1 + (0 + (0 + 0 + 0 + 0 - 4 * 1) * stiffness ?s) * 0.94)"
    "\<forall>x y. interior ?s x y \<and> \<bar>x - 1\<bar> + \<bar>y - 2\<bar> = 1 \<longrightarrow>
              velocity_at s' x y = Some (1 * stiffness ?s * 0.94) \<and>
              height_at s' x y = Some (1 * stiffness ?s * 0.94) \<and>
              1 * stiffness ?s * 0.94 \<noteq> 0"
    "\<forall>x y. \<not> interior ?s x y \<and> \<bar>x - 1\<bar> + \<bar>y - 2\<bar> = 1 \<longrightarrow>
              on_boundary ?s x y \<and> velocity_at s' x y = Some 0 \<and> height_at s' x y = Some 0"
    by blast
  with w i b show ?thesis by auto
qed

text \<open>
  The bounds on the magnitudes, on binary32 values: for \<open>c = 2\<^sup>-\<^sup>1\<^sup>4\<^sup>9\<close>, the smallest
  positive binary32 number, and stiffness \<open>0.2\<close> the force of a neighbour underflows and
  its velocity stays zero; within the bounds the velocity of a neighbour is the product
  \<open>c * stiffness * 0.94\<close> of the real-valued model, and not zero.
\<close>

lemma float32_result_exact:
  assumes "r = 0 \<or> 1 / 2 ^ 150 < \<bar>r\<bar>" "\<bar>r\<bar> < 2 ^ 128 - 2 ^ 103"
  shows "float32_result r = Finite r"
  using assms by (auto simp: float32_result_def)

lemma neighbour_velocity_underflows:
  "damped_velocity_float32 (Finite 0)
     (cell_force_float32 (Finite 0) (Finite (1 / 2 ^ 149)) (Finite 0) (Finite 0) (Finite 0)
        (Finite 0.2)) = Finite 0"
  by (simp add: damped_velocity_float32_def cell_force_float32_def fsub_def float32_result_def)

lemma neighbour_velocity_float32:
  assumes c: "1 / 2 ^ 100 \<le> \<bar>c\<bar>" "\<bar>c\<bar> \<le> 2 ^ 100"
    and k: "1 / 2 ^ 20 \<le> \<bar>k\<bar>" "\<bar>k\<bar> \<le> 2 ^ 20"
  shows "damped_velocity_float32 (Finite 0)
     (cell_force_float32 (Finite 0) (Finite c) (Finite 0) (Finite 0) (Finite 0) (Finite k))
       = Finite (c * k * 0.94)"
    and "c * k * 0.94 \<noteq> 0"
proof -
  have lo: "(1 / 2 ^ 100) * (1 / 2 ^ 20) \<le> \<bar>c\<bar> * \<bar>k\<bar>"
    using c(1) k(1) by (intro mult_mono) simp_all
  have hi: "\<bar>c\<bar> * \<bar>k\<bar> \<le> 2 ^ 100 * 2 ^ 20"
    using c(2) k(2) by (intro mult_mono) simp_all
  have ck: "1 / 2 ^ 120 \<le> \<bar>c * k\<bar>" "\<bar>c * k\<bar> \<le> 2 ^ 120"
    using lo hi by (simp_all add: abs_mult)
  have c1: "float32_result c = Finite c"
    using c by (intro float32_result_exact) (rule disjI2, simp_all)
  have ck1: "float32_result (c * k) = Finite (c * k)"
    using ck by (intro float32_result_exact) (rule disjI2, simp_all)
  have "\<bar>c * k * 0.94\<bar> = \<bar>c * k\<bar> * 0.94" by (simp add: abs_mult)
  then have d: "1 / 2 ^ 121 \<le> \<bar>c * k * 0.94\<bar>" "\<bar>c * k * 0.94\<bar> \<le> 2 ^ 120"
    using ck by simp_all
  have ckd: "float32_result (c * k * 0.94) = Finite (c * k * 0.94)"
    using d by (intro float32_result_exact) (rule disjI2, simp_all)
  have z: "float32_result 0 = Finite 0" by (simp add: float32_result_def)
  show "damped_velocity_float32 (Finite 0)
     (cell_force_float32 (Finite 0) (Finite c) (Finite 0) (Finite 0) (Finite 0) (Finite k))
       = Finite (c * k * 0.94)"
    using c1 ck1 ckd z
    by (simp add: damped_velocity_float32_def cell_force_float32_def fsub_def)
  from d(1) show "c * k * 0.94 \<noteq> 0" by auto
qed

section \<open>The boundary ring\<close>









section \<open>The footprint of an impulse\<close>





section \<open>Shading: the environment lookup\<close>







section \<open>Shading: normals and channel ranges\<close>

lemma candidate_len_ge_1: "1 \<le> normal_len (candidate_normal dx dy)"
proof -
  have "1 \<le> dx * dx + dy * dy + 1" by simp
  then have "sqrt 1 \<le> sqrt (dx * dx + dy * dy + 1)" by (rule real_sqrt_le_mono)
  then show ?thesis by (simp add: normal_len_def candidate_normal_def)
qed

text \<open>The same computation on binary32 values.\<close>

lemma float32_result_nonneg:
  assumes "0 \<le> r"
  shows "(\<exists>q. 0 \<le> q \<and> float32_result r = Finite q) \<or> float32_result r = PInf"
  using assms by (auto simp: float32_result_def)

lemma float32_result_ge_1:
  assumes "1 \<le> r"
  shows "float32_result r = Finite r \<or> float32_result r = PInf"
proof -
  have "(1::real) / 2 ^ 150 < 1" by simp
  then have "\<not> \<bar>r\<bar> \<le> 1 / 2 ^ 150" using assms by linarith
  then show ?thesis using assms by (auto simp: float32_result_def)
qed

lemma fmul_self:
  assumes "a \<noteq> NaN"
  shows "(\<exists>r. 0 \<le> r \<and> fmul a a = Finite r) \<or> fmul a a = PInf"
proof (cases a)
  case (Finite r)
  then show ?thesis using float32_result_nonneg [of "r * r"] by auto
qed (use assms in simp_all)

lemma fadd_nonneg:
  assumes "(\<exists>r. 0 \<le> r \<and> a = Finite r) \<or> a = PInf"
    and "(\<exists>r. 0 \<le> r \<and> b = Finite r) \<or> b = PInf"
  shows "(\<exists>r. 0 \<le> r \<and> fadd a b = Finite r) \<or> fadd a b = PInf"
proof -
  consider (ff) r q where "a = Finite r" "0 \<le> r" "b = Finite q" "0 \<le> q"
    | (inf) "a = PInf \<or> b = PInf" "a \<noteq> NInf" "b \<noteq> NInf" "a \<noteq> NaN" "b \<noteq> NaN"
    using assms by auto
  then show ?thesis
  proof cases
    case ff
    then have "0 \<le> r + q" by simp
    then show ?thesis using ff float32_result_nonneg [of "r + q"] by auto
  next
    case inf
    then show ?thesis by (cases a; cases b) simp_all
  qed
qed

lemma fadd_ge_1:
  assumes "(\<exists>r. 0 \<le> r \<and> a = Finite r) \<or> a = PInf"
    and "\<exists>r. 1 \<le> r \<and> b = Finite r"
  shows "(\<exists>r. 1 \<le> r \<and> fadd a b = Finite r) \<or> fadd a b = PInf"
proof -
  from assms(2) obtain q where q: "1 \<le> q" "b = Finite q" by blast
  from assms(1) show ?thesis
  proof
    assume "\<exists>r. 0 \<le> r \<and> a = Finite r"
    then obtain r where r: "0 \<le> r" "a = Finite r" by blast
    then have "1 \<le> r + q" using q by simp
    then show ?thesis using r q float32_result_ge_1 [of "r + q"] by auto
  next
    assume "a = PInf"
    then show ?thesis using q by simp
  qed
qed

lemma fneg_not_NaN: "fneg a = NaN \<longleftrightarrow> a = NaN"
  by (cases a) simp_all

lemma normal_len_float32_ge_1:
  assumes "dx \<noteq> NaN" "dy \<noteq> NaN"
  shows "(\<exists>l. 1 \<le> l \<and> normal_len_float32 (candidate_normal_float32 dx dy) = Finite l) \<or>
         normal_len_float32 (candidate_normal_float32 dx dy) = PInf"
proof -
  have x: "(\<exists>r. 0 \<le> r \<and> fmul (fneg dx) (fneg dx) = Finite r) \<or> fmul (fneg dx) (fneg dx) = PInf"
    using assms(1) by (intro fmul_self) (simp add: fneg_not_NaN)
  have y: "(\<exists>r. 0 \<le> r \<and> fmul (fneg dy) (fneg dy) = Finite r) \<or> fmul (fneg dy) (fneg dy) = PInf"
    using assms(2) by (intro fmul_self) (simp add: fneg_not_NaN)
  have z: "\<exists>r. 1 \<le> r \<and> fmul (Finite 1) (Finite 1) = Finite r"
    by (simp add: float32_result_def)
  have xy: "(\<exists>r. 0 \<le> r \<and> fadd (fmul (fneg dx) (fneg dx)) (fmul (fneg dy) (fneg dy)) = Finite r)
      \<or> fadd (fmul (fneg dx) (fneg dx)) (fmul (fneg dy) (fneg dy)) = PInf"
    by (rule fadd_nonneg [OF x y])
  have s: "(\<exists>r. 1 \<le> r \<and>
        fadd (fadd (fmul (fneg dx) (fneg dx)) (fmul (fneg dy) (fneg dy)))
          (fmul (Finite 1) (Finite 1)) = Finite r)
      \<or> fadd (fadd (fmul (fneg dx) (fneg dx)) (fmul (fneg dy) (fneg dy)))
          (fmul (Finite 1) (Finite 1)) = PInf"
    by (rule fadd_ge_1 [OF xy z])
  then show ?thesis
  proof
    assume "\<exists>r. 1 \<le> r \<and>
        fadd (fadd (fmul (fneg dx) (fneg dx)) (fmul (fneg dy) (fneg dy)))
          (fmul (Finite 1) (Finite 1)) = Finite r"
    then obtain r where r: "1 \<le> r" "fadd (fadd (fmul (fneg dx) (fneg dx)) (fmul (fneg dy) (fneg dy)))
          (fmul (Finite 1) (Finite 1)) = Finite r" by blast
    have "1 \<le> sqrt r" using r(1) by simp
    then show ?thesis using r by (simp add: normal_len_float32_def candidate_normal_float32_def)
  next
    assume "fadd (fadd (fmul (fneg dx) (fneg dx)) (fmul (fneg dy) (fneg dy)))
          (fmul (Finite 1) (Finite 1)) = PInf"
    then show ?thesis by (simp add: normal_len_float32_def candidate_normal_float32_def)
  qed
qed

lemma normal_len_float32_NaN:
  assumes "dx = NaN \<or> dy = NaN"
  shows "normal_len_float32 (candidate_normal_float32 dx dy) = NaN"
proof -
  have "fmul (fneg dx) (fneg dx) = NaN \<or> fmul (fneg dy) (fneg dy) = NaN"
    using assms by auto
  then have "fadd (fmul (fneg dx) (fneg dx)) (fmul (fneg dy) (fneg dy)) = NaN"
    by (cases "fmul (fneg dx) (fneg dx)"; cases "fmul (fneg dy) (fneg dy)") auto
  then show ?thesis by (simp add: normal_len_float32_def candidate_normal_float32_def)
qed

lemma fsub_finite: "fsub (Finite a) (Finite b) \<noteq> NaN"
  by (simp add: fsub_def float32_result_def)

lemma normal_len_float32_real:
  assumes x: "dx = 0 \<or> 1 / 2 ^ 75 < \<bar>dx\<bar>" and y: "dy = 0 \<or> 1 / 2 ^ 75 < \<bar>dy\<bar>"
    and b: "dx * dx + dy * dy + 1 < 2 ^ 128 - 2 ^ 103"
  shows "normal_len_float32 (candidate_normal_float32 (Finite dx) (Finite dy)) =
           Finite (normal_len (candidate_normal dx dy))"
proof -
  have sq: "a * a = 0 \<or> 1 / 2 ^ 150 < \<bar>a * a\<bar>" if "a = 0 \<or> 1 / 2 ^ 75 < \<bar>a\<bar>" for a :: real
  proof (cases "a = 0")
    case True
    then show ?thesis by simp
  next
    case False
    with that have "1 / 2 ^ 75 < \<bar>a\<bar>" by simp
    then have "(1 / 2 ^ 75) * (1 / 2 ^ 75) < \<bar>a\<bar> * \<bar>a\<bar>"
      by (intro mult_strict_mono) simp_all
    then show ?thesis by (simp add: abs_mult_self_eq)
  qed
  have a: "0 \<le> dx * dx" "0 \<le> dy * dy" by simp_all
  have xx: "float32_result (dx * dx) = Finite (dx * dx)"
    using sq [OF x] a b by (intro float32_result_exact) linarith+
  have yy: "float32_result (dy * dy) = Finite (dy * dy)"
    using sq [OF y] a b by (intro float32_result_exact) linarith+
  have "dx * dx + dy * dy = 0 \<or> 1 / 2 ^ 150 < \<bar>dx * dx + dy * dy\<bar>"
    using sq [OF x] sq [OF y] a by linarith
  then have xy: "float32_result (dx * dx + dy * dy) = Finite (dx * dx + dy * dy)"
    using a b by (intro float32_result_exact) linarith+
  have "(1::real) / 2 ^ 150 < 1" by simp
  then have s: "float32_result (dx * dx + dy * dy + 1) = Finite (dx * dx + dy * dy + 1)"
    using a b by (intro float32_result_exact) linarith+
  have one: "float32_result 1 = Finite 1" by (simp add: float32_result_def)
  have "\<not> dx * dx + dy * dy + 1 < 0" using a by linarith
  then show ?thesis
    using xx yy xy s one
    by (simp add: normal_len_float32_def candidate_normal_float32_def
        normal_len_def candidate_normal_def)
qed

lemma impulse_sum_overflows: "fadd (Finite (3 * 10 ^ 38)) (Finite (3 * 10 ^ 38)) = PInf"
  by (simp add: float32_result_def)

text \<open>
  Claim C9, as stated: for every height field the length of the candidate normal is at
  least 1 and the fallback branch is unreachable. A height field can hold infinities
  (the sum of two impulses of amount \<open>3 * 10\<^sup>3\<^sup>8\<close> overflows, \<open>impulse_sum_overflows\<close>).
  With \<open>hL = hR = +inf\<close> the difference \<open>dx = hR - hL\<close> is NaN, so is the length, the
  test \<^verbatim>\<open>len > 0.0f\<close> is false, and the fallback branch leaves the vector
  \<open>(NaN, 0, 1)\<close> as it is.
\<close>

theorem normalize_fallback_counterexample:
  "fsub PInf PInf = NaN \<and>
   normal_len_float32 (candidate_normal_float32 (fsub PInf PInf) (fsub (Finite 0) (Finite 0))) = NaN \<and>
   fgreater (normal_len_float32
      (candidate_normal_float32 (fsub PInf PInf) (fsub (Finite 0) (Finite 0)))) (Finite 0) = False \<and>
   normalize_float32 (candidate_normal_float32 (fsub PInf PInf) (fsub (Finite 0) (Finite 0))) =
     \<lparr>f3_x = NaN, f3_y = Finite 0, f3_z = Finite 1\<rparr>"
  by (simp add: fsub_def normal_len_float32_def candidate_normal_float32_def normalize_float32_def
      float32_result_def)

text \<open>
  Claim C9, amended: in normal reconstruction the z-component of the candidate normal is
  the constant 1. Whenever the height differences \<open>dx\<close> and \<open>dy\<close> are not NaN (as for
  every field of finite heights, whose differences are finite or infinite), the length
  is a number of at least 1 or \<open>+inf\<close>, the test \<^verbatim>\<open>len > 0.0f\<close> holds, the vector is
  divided by the length, and the divisor is not zero. When \<open>dx\<close> or \<open>dy\<close> is NaN (an
  infinity minus an infinity among the neighbouring heights), the length is NaN, the
  test fails, and the fallback branch leaves the vector unnormalised; nothing is divided
  then, so in no case is there a division by zero.
\<close>

theorem normalize_divides_unless_NaN:
  "(dx \<noteq> NaN \<and> dy \<noteq> NaN \<longrightarrow>
      ((\<exists>l. 1 \<le> l \<and> normal_len_float32 (candidate_normal_float32 dx dy) = Finite l) \<or>
       normal_len_float32 (candidate_normal_float32 dx dy) = PInf) \<and>
      fgreater (normal_len_float32 (candidate_normal_float32 dx dy)) (Finite 0) \<and>
      normal_len_float32 (candidate_normal_float32 dx dy) \<noteq> Finite 0 \<and>
      normalize_float32 (candidate_normal_float32 dx dy) =
        \<lparr>f3_x = fdiv (fneg dx) (normal_len_float32 (candidate_normal_float32 dx dy)),
         f3_y = fdiv (fneg dy) (normal_len_float32 (candidate_normal_float32 dx dy)),
         f3_z = fdiv (Finite 1) (normal_len_float32 (candidate_normal_float32 dx dy))\<rparr>) \<and>
   (dx = NaN \<or> dy = NaN \<longrightarrow>
      normal_len_float32 (candidate_normal_float32 dx dy) = NaN \<and>
      \<not> fgreater (normal_len_float32 (candidate_normal_float32 dx dy)) (Finite 0) \<and>
      normalize_float32 (candidate_normal_float32 dx dy) = candidate_normal_float32 dx dy) \<and>
   fsub (Finite a) (Finite b) \<noteq> NaN"
proof (intro conjI impI)
  assume d: "dx \<noteq> NaN \<and> dy \<noteq> NaN"
  then have l: "(\<exists>l. 1 \<le> l \<and> normal_len_float32 (candidate_normal_float32 dx dy) = Finite l) \<or>
       normal_len_float32 (candidate_normal_float32 dx dy) = PInf"
    using normal_len_float32_ge_1 by blast
  then show "(\<exists>l. 1 \<le> l \<and> normal_len_float32 (candidate_normal_float32 dx dy) = Finite l) \<or>
       normal_len_float32 (candidate_normal_float32 dx dy) = PInf" .
  from l show g: "fgreater (normal_len_float32 (candidate_normal_float32 dx dy)) (Finite 0)"
    by auto
  from l show "normal_len_float32 (candidate_normal_float32 dx dy) \<noteq> Finite 0" by auto
  from g show "normalize_float32 (candidate_normal_float32 dx dy) =
        \<lparr>f3_x = fdiv (fneg dx) (normal_len_float32 (candidate_normal_float32 dx dy)),
         f3_y = fdiv (fneg dy) (normal_len_float32 (candidate_normal_float32 dx dy)),
         f3_z = fdiv (Finite 1) (normal_len_float32 (candidate_normal_float32 dx dy))\<rparr>"
    by (simp add: normalize_float32_def Let_def) (simp add: candidate_normal_float32_def)
next
  assume d: "dx = NaN \<or> dy = NaN"
  then show n: "normal_len_float32 (candidate_normal_float32 dx dy) = NaN"
    by (rule normal_len_float32_NaN)
  then show "\<not> fgreater (normal_len_float32 (candidate_normal_float32 dx dy)) (Finite 0)" by simp
  from n show "normalize_float32 (candidate_normal_float32 dx dy) = candidate_normal_float32 dx dy"
    by (simp add: normalize_float32_def)
next
  show "fsub (Finite a) (Finite b) \<noteq> NaN" by (rule fsub_finite)
qed

text \<open>An instance: \<open>dx = 2\<close>, \<open>dy = -2\<close> with length 3, and \<open>dx\<close> NaN.\<close>

theorem normalize_divides_unless_NaN_witness:
  "normal_len_float32 (candidate_normal_float32 (Finite 2) (Finite (- 2))) = Finite 3 \<and>
   fgreater (normal_len_float32 (candidate_normal_float32 (Finite 2) (Finite (- 2)))) (Finite 0) \<and>
   normalize_float32 (candidate_normal_float32 (Finite 2) (Finite (- 2))) =
     \<lparr>f3_x = Finite (- 2 / 3), f3_y = Finite (2 / 3), f3_z = Finite (1 / 3)\<rparr> \<and>
   normal_len_float32 (candidate_normal_float32 NaN (Finite 0)) = NaN \<and>
   normalize_float32 (candidate_normal_float32 NaN (Finite 0)) =
     candidate_normal_float32 NaN (Finite 0)"
proof -
  have l: "normal_len_float32 (candidate_normal_float32 (Finite 2) (Finite (- 2))) = Finite 3"
  proof -
    have "sqrt 9 = sqrt (3\<^sup>2)" by simp
    also have "\<dots> = 3" by (simp del: power2_eq_square)
    finally have "sqrt 9 = 3" .
    then show ?thesis
      by (simp add: normal_len_float32_def candidate_normal_float32_def float32_result_def)
  qed
  have f: "float32_result (1 / 3) = Finite (1 / 3)" "float32_result (2 / 3) = Finite (2 / 3)"
    "float32_result (- (2 / 3)) = Finite (- (2 / 3))"
    by (simp_all add: float32_result_def)
  from normalize_divides_unless_NaN [of "Finite 2" "Finite (- 2)" 0 0]
    normalize_divides_unless_NaN [of NaN "Finite 0" 0 0] l f
  show ?thesis by simp
qed

lemma Clamp_unit: "0 \<le> Clamp v 0 1 \<and> Clamp v 0 1 \<le> 1"
  by (simp add: Clamp_def Let_def)

lemma chrome_value_range: "0 \<le> chrome_value n l \<and> chrome_value n l \<le> 255"
proof -
  define t where "t = Clamp (0.4 + (v3_x n * v2_x l + v3_y n * v2_y l + v3_z n * 1) * 0.6) 0 1"
  have t: "0 \<le> t" "t \<le> 1" using Clamp_unit [of "0.4 + (v3_x n * v2_x l + v3_y n * v2_y l + v3_z n * 1) * 0.6"]
    by (simp_all add: t_def)
  have "0 \<le> t powr 0.6" by simp
  moreover have "t powr 0.6 \<le> 1" using t by (simp add: powr_le1)
  ultimately have "0 \<le> t powr 0.6 * 255 \<and> t powr 0.6 * 255 \<le> 255" by simp
  then show ?thesis by (simp add: chrome_value_def Let_def t_def)
qed

lemma of_uchar_range: "0 \<le> of_uchar c \<and> of_uchar c \<le> 255"
proof -
  have "unat c < 2 ^ LENGTH(8)" by (rule unsigned_less)
  then have "unat c < 256" by simp
  then have "0 \<le> real (unat c) \<and> real (unat c) \<le> 255" by linarith
  then show ?thesis unfolding of_uchar_def .
qed

lemma blend_range: "0 \<le> blend c e \<and> blend c e \<le> 255"
  using of_uchar_range [of c] of_uchar_range [of e] by (simp add: blend_def)

lemma to_uchar_defined: "0 \<le> f \<Longrightarrow> f \<le> 255 \<Longrightarrow> to_uchar f = Some (word_of_int \<lfloor>f\<rfloor>)"
  by (simp add: to_uchar_def)

lemma shade_defined: "\<exists>c. shade hL hR hU hD l = Some c"
  using chrome_value_range blend_range
  by (simp add: shade_def Let_def to_uchar_defined)

text \<open>
  Claim C10: the chrome value lies in \<open>[0, 255]\<close> before its conversion, and for every
  8-bit chrome value and every 8-bit environment channel the blended value
  \<open>chrome * 0.4 + env * 0.6\<close> lies in \<open>[0, 255]\<close>, so its conversion to
  \<^verbatim>\<open>unsigned char\<close> is defined and is the floor of the value; the shading of a pixel
  never faults, whatever the four neighbouring heights and the light direction are.
\<close>

theorem blended_channels_in_range:
  "0 \<le> chrome_value n lightDir \<and> chrome_value n lightDir \<le> 255 \<and>
   0 \<le> blend chrome e \<and> blend chrome e \<le> 255 \<and>
   to_uchar (blend chrome e) = Some (word_of_int \<lfloor>blend chrome e\<rfloor>) \<and>
   (\<exists>c. shade hL hR hU hD lightDir = Some c)"
  using chrome_value_range [of n lightDir] blend_range [of chrome e]
    shade_defined [of hL hR hU hD lightDir]
  by (simp add: to_uchar_defined)

section \<open>RenderToImage: frame and determinism\<close>

lemma for_each_rel:
  assumes "R a b"
    and "\<And>i a b. i \<in> set js \<Longrightarrow> R a b \<Longrightarrow> rel_option R (f i a) (g i b)"
  shows "rel_option R (for_each js f a) (for_each js g b)"
  using assms
proof (induction js arbitrary: a b)
  case Nil
  then show ?case by simp
next
  case (Cons j js)
  have r: "rel_option R (f j a) (g j b)" using Cons.prems by simp
  show ?case
  proof (cases "f j a")
    case None
    with r have "g j b = None" by simp
    with None show ?thesis by simp
  next
    case (Some a')
    with r obtain b' where b': "g j b = Some b'" "R a' b'" by (cases "g j b") auto
    have "rel_option R (for_each js f a') (for_each js g b')"
      using Cons.IH [OF b'(2)] Cons.prems(2) by simp
    with Some b' show ?thesis by simp
  qed
qed

lemma RenderToImage_body_ok:
  assumes wf: "wf_sim s" and i: "interior s x y"
    and fit: "width s * height s \<le> int (length px)"
  shows "\<exists>px'. RenderToImage_body l x y (s, px) = Some (s, px') \<and> length px' = length px"
proof -
  have g: "in_grid s x y" using i by (rule interior_in_grid)
  have n: "0 \<le> idx s x y" "idx s x y < int (length px)"
    using cell_index(1,4) [OF wf g] fit by simp_all
  obtain c where c: "shade (heightField s ! nat (idx s (x - 1) y)) (heightField s ! nat (idx s (x + 1) y))
      (heightField s ! nat (idx s x (y - 1))) (heightField s ! nat (idx s x (y + 1))) l = Some c"
    using shade_defined by blast
  show ?thesis
    using interior_neighbours [OF i, THEN vec_get_cell(1) [OF wf]] n c
    by (simp add: RenderToImage_body_def vec_set_def)
qed

lemma RenderToImage_ok:
  assumes wf: "wf_sim s" and fit: "width s * height s \<le> int (length img)"
  shows "\<exists>img'. RenderToImage s img l = Some (s, img') \<and> length img' = length img"
proof -
  define P where "P = (\<lambda>st :: LiquidSim \<times> Image. fst st = s \<and> length (snd st) = length img)"
  have inner: "\<exists>st'. for_each [1 .. width s - 2] (\<lambda>x. RenderToImage_body l x y) st = Some st' \<and> P st'"
    if y: "y \<in> set [1 .. height s - 2]" and st: "P st" for y st
  proof (rule for_each_inv [where P = P])
    show "P st" by (rule st)
  next
    fix x u assume x: "x \<in> set [1 .. width s - 2]" and u: "P u"
    have i: "interior s x y" using x y set_interior_ranges by blast
    obtain px where px: "u = (s, px)" "length px = length img" using u by (cases u) (simp add: P_def)
    from RenderToImage_body_ok [OF wf i, of px l] fit px
    show "\<exists>t'. RenderToImage_body l x y u = Some t' \<and> P t'" by (auto simp: P_def)
  qed
  have "\<exists>st'. for_each [1 .. height s - 2]
      (\<lambda>y. for_each [1 .. width s - 2] (\<lambda>x. RenderToImage_body l x y)) (s, img) = Some st' \<and> P st'"
  proof (rule for_each_inv [where P = P])
    show "P (s, img)" by (simp add: P_def)
  next
    fix y st assume "y \<in> set [1 .. height s - 2]" "P st"
    then show "\<exists>st'. for_each [1 .. width s - 2] (\<lambda>x. RenderToImage_body l x y) st = Some st' \<and> P st'"
      by (rule inner)
  qed
  then show ?thesis by (auto simp: RenderToImage_def for_interior_def P_def)
qed

lemma RenderToImage_times_ok:
  assumes wf: "wf_sim s" and fit: "width s * height s \<le> int (length img)"
  shows "\<exists>img'. RenderToImage_times n s img l = Some (s, img') \<and> length img' = length img"
  using fit
proof (induction n arbitrary: img)
  case 0
  then show ?case by simp
next
  case (Suc n)
  from RenderToImage_ok [OF wf Suc.prems, of l] obtain img1 where
    r: "RenderToImage s img l = Some (s, img1)" "length img1 = length img" by blast
  from Suc.IH [of img1] Suc.prems r(2) obtain img' where
    "RenderToImage_times n s img1 l = Some (s, img')" "length img' = length img1" by auto
  with r show ?case by simp
qed

lemma RenderToImage_same_field:
  assumes "width t = width s" "height t = height s" "heightField t = heightField s"
  shows "rel_option (\<lambda>a b. fst a = s \<and> fst b = t \<and> snd a = snd b)
           (RenderToImage s img l) (RenderToImage t img l)"
proof -
  define R where "R = (\<lambda>(a :: LiquidSim \<times> Image) (b :: LiquidSim \<times> Image).
     fst a = s \<and> fst b = t \<and> snd a = snd b)"
  have body: "rel_option R (RenderToImage_body l x y a) (RenderToImage_body l x y b)"
    if "R a b" for x y a b
  proof -
    from that have "fst a = s" "fst b = t" "snd a = snd b" by (simp_all add: R_def)
    then obtain px where ab: "a = (s, px)" "b = (t, px)" by (metis prod.collapse)
    show ?thesis
      unfolding ab
      by (auto simp: RenderToImage_body_def assms idx_def R_def split: Option.bind_splits)
  qed
  have inner: "rel_option R (for_each [1 .. width s - 2] (\<lambda>x. RenderToImage_body l x y) a)
      (for_each [1 .. width s - 2] (\<lambda>x. RenderToImage_body l x y) b)" if "R a b" for y a b
    using that by (rule for_each_rel) (rule body)
  have "rel_option R
      (for_each [1 .. height s - 2] (\<lambda>y. for_each [1 .. width s - 2] (\<lambda>x. RenderToImage_body l x y)) (s, img))
      (for_each [1 .. height s - 2] (\<lambda>y. for_each [1 .. width s - 2] (\<lambda>x. RenderToImage_body l x y)) (t, img))"
  proof (rule for_each_rel [where R = R])
    show "R (s, img) (t, img)" by (simp add: R_def)
  next
    fix y a b assume "y \<in> set [1 .. height s - 2]" "R a b"
    then show "rel_option R (for_each [1 .. width s - 2] (\<lambda>x. RenderToImage_body l x y) a)
      (for_each [1 .. width s - 2] (\<lambda>x. RenderToImage_body l x y) b)"
      using inner by blast
  qed
  then show ?thesis by (simp add: RenderToImage_def for_interior_def assms R_def)
qed

lemma RenderToImage_state_unchanged:
  assumes "RenderToImage s img l = Some (s', img')"
  shows "s' = s"
  using RenderToImage_same_field [of s s img l] assms by simp

text \<open>
  Claim C7: on every well-formed state, with an image buffer that holds at least
  \<open>width * height\<close> pixels, and for every light direction, \<^verbatim>\<open>RenderToImage\<close> returns
  and the object it leaves is the object it was given: the height grid, the velocity
  grid and the configuration are unchanged, only the pixel buffer is written (its size is
  kept). The same holds after any number \<open>n\<close> of calls in a row. By
  \<open>RenderToImage_state_unchanged\<close> the object is unchanged whenever the call returns at
  all.
\<close>

theorem RenderToImage_leaves_state:
  assumes "wf_sim s" and "width s * height s \<le> int (length img)"
  shows "(\<exists>img'. RenderToImage s img lightDir = Some (s, img') \<and> length img' = length img) \<and>
         (\<exists>img'. RenderToImage_times n s img lightDir = Some (s, img') \<and> length img' = length img)"
  using RenderToImage_ok [OF assms, of lightDir] RenderToImage_times_ok [OF assms, of n lightDir]
  by simp

text \<open>An instance: five calls in a row on a 3 by 3 grid, into a 9 pixel buffer cleared to black.\<close>

theorem RenderToImage_leaves_state_witness:
  "wf_sim \<lparr>width = 3, height = 3, stiffness = 0.2, damping = 0.985,
           heightField = [0, 0, 0, 0, 1, 0, 0, 0, 0],
           velocityField = [0, 0, 0, 0, - 0.8, 0, 0, 0, 0]\<rparr> \<and>
   (3::int) * 3 \<le> int (length (replicate 9 \<lparr>c_r = 0, c_g = 0, c_b = 0, c_a = 255\<rparr>)) \<and>
   (\<exists>img'. RenderToImage_times 5
       \<lparr>width = 3, height = 3, stiffness = 0.2, damping = 0.985,
        heightField = [0, 0, 0, 0, 1, 0, 0, 0, 0],
        velocityField = [0, 0, 0, 0, - 0.8, 0, 0, 0, 0]\<rparr>
       (replicate 9 \<lparr>c_r = 0, c_g = 0, c_b = 0, c_a = 255\<rparr>)
       \<lparr>v2_x = - 0.4, v2_y = - 0.6\<rparr> =
     Some (\<lparr>width = 3, height = 3, stiffness = 0.2, damping = 0.985,
            heightField = [0, 0, 0, 0, 1, 0, 0, 0, 0],
            velocityField = [0, 0, 0, 0, - 0.8, 0, 0, 0, 0]\<rparr>, img'))"
proof -
  let ?s = "\<lparr>width = 3, height = 3, stiffness = 0.2, damping = 0.985,
           heightField = [0, 0, 0, 0, 1, 0, 0, 0, 0],
           velocityField = [0, 0, 0, 0, - 0.8 :: real, 0, 0, 0, 0]\<rparr>"
  let ?img = "replicate 9 \<lparr>c_r = 0, c_g = 0, c_b = 0, c_a = 255 :: 8 word\<rparr>"
  have w: "wf_sim ?s" by (simp add: wf_sim_def)
  have f: "width ?s * height ?s \<le> int (length ?img)" by simp
  from RenderToImage_leaves_state [OF w f, of "\<lparr>v2_x = - 0.4, v2_y = - 0.6\<rparr>" 5] w
  show ?thesis by auto
qed

text \<open>
  Claim C8: a call of \<^verbatim>\<open>RenderToImage\<close> on a well-formed state returns some object
  \<open>s1\<close> and image \<open>out\<close>, and a second call on the object \<open>s1\<close> that the first call
  left, with the same light direction and into an image cleared to the same contents,
  returns the identical image \<open>out\<close>. So does a call on any object \<open>t\<close> with the same
  \<open>width\<close>, \<open>height\<close> and height grid: the image depends on nothing else.
\<close>

theorem RenderToImage_deterministic:
  assumes "wf_sim s" and "width s * height s \<le> int (length img)"
    and "width t = width s" and "height t = height s" and "heightField t = heightField s"
  shows "\<exists>out s1. RenderToImage s img lightDir = Some (s1, out) \<and>
           RenderToImage s1 img lightDir = Some (s1, out) \<and>
           RenderToImage t img lightDir = Some (t, out)"
proof -
  from RenderToImage_ok [OF assms(1,2), of lightDir] obtain out where
    o: "RenderToImage s img lightDir = Some (s, out)" by blast
  have "RenderToImage t img lightDir = Some (t, out)"
    using RenderToImage_same_field [OF assms(3,4,5), of img lightDir] o
    by (cases "RenderToImage t img lightDir") (auto simp: prod_eq_iff)
  with o show ?thesis by blast
qed

text \<open>
  An instance: a 3 by 3 grid, and a second object with the same heights but other
  velocities, stiffness and damping.
\<close>

theorem RenderToImage_deterministic_witness:
  "wf_sim \<lparr>width = 3, height = 3, stiffness = 0.2, damping = 0.985,
           heightField = [0, 0, 0, 0, 1, 0, 0, 0, 0],
           velocityField = [0, 0, 0, 0, - 0.8, 0, 0, 0, 0]\<rparr> \<and>
   (3::int) * 3 \<le> int (length (replicate 9 \<lparr>c_r = 0, c_g = 0, c_b = 0, c_a = 255\<rparr>)) \<and>
   (\<exists>out s1.
      RenderToImage
       \<lparr>width = 3, height = 3, stiffness = 0.2, damping = 0.985,
        heightField = [0, 0, 0, 0, 1, 0, 0, 0, 0],
        velocityField = [0, 0, 0, 0, - 0.8, 0, 0, 0, 0]\<rparr>
       (replicate 9 \<lparr>c_r = 0, c_g = 0, c_b = 0, c_a = 255\<rparr>)
       \<lparr>v2_x = - 0.4, v2_y = - 0.6\<rparr> = Some (s1, out) \<and>
      RenderToImage s1
       (replicate 9 \<lparr>c_r = 0, c_g = 0, c_b = 0, c_a = 255\<rparr>)
       \<lparr>v2_x = - 0.4, v2_y = - 0.6\<rparr> = Some (s1, out) \<and>
      RenderToImage
       \<lparr>width = 3, height = 3, stiffness = 0.5, damping = 0.9,
        heightField = [0, 0, 0, 0, 1, 0, 0, 0, 0],
        velocityField = [0, 0, 0, 0, 0, 0, 0, 0, 0]\<rparr>
       (replicate 9 \<lparr>c_r = 0, c_g = 0, c_b = 0, c_a = 255\<rparr>)
       \<lparr>v2_x = - 0.4, v2_y = - 0.6\<rparr> =
      Some (\<lparr>width = 3, height = 3, stiffness = 0.5, damping = 0.9,
            heightField = [0, 0, 0, 0, 1, 0, 0, 0, 0],
            velocityField = [0, 0, 0, 0, 0, 0, 0, 0, 0]\<rparr>, out))"
proof -
  let ?s = "\<lparr>width = 3, height = 3, stiffness = 0.2, damping = 0.985,
           heightField = [0, 0, 0, 0, 1, 0, 0, 0, 0],
           velocityField = [0, 0, 0, 0, - 0.8 :: real, 0, 0, 0, 0]\<rparr>"
  let ?t = "\<lparr>width = 3, height = 3, stiffness = 0.5, damping = 0.9,
           heightField = [0, 0, 0, 0, 1, 0, 0, 0, 0],
           velocityField = [0, 0, 0, 0, 0 :: real, 0, 0, 0, 0]\<rparr>"
  let ?img = "replicate 9 \<lparr>c_r = 0, c_g = 0, c_b = 0, c_a = 255 :: 8 word\<rparr>"
  have w: "wf_sim ?s" by (simp add: wf_sim_def)
  have f: "width ?s * height ?s \<le> int (length ?img)" by simp
  have e: "width ?t = width ?s" "height ?t = height ?s" "heightField ?t = heightField ?s"
    by simp_all
  from RenderToImage_deterministic [OF w f e, of "\<lparr>v2_x = - 0.4, v2_y = - 0.6\<rparr>"] w
  show ?thesis by auto
qed

end
